theory Spec2Isabelle
  imports Complex_Main "HOL-Library.AList"
begin

section \<open>JavaScript strings\<close>

text \<open>
  A JavaScript string is a sequence of UTF-16 code units and \<open>length\<close> counts them.
  The model is \<^typ>\<open>string\<close>: every \<^typ>\<open>char\<close> is one code unit below 256
  (the Latin-1 range), read through \<open>charCode\<close>.
\<close>

definition charCode :: "char \<Rightarrow> nat" where
  "charCode c = of_char c"

definition is_digit :: "char \<Rightarrow> bool" where
  "is_digit c = (48 \<le> charCode c \<and> charCode c \<le> 57)"

definition is_lower :: "char \<Rightarrow> bool" where
  "is_lower c = (97 \<le> charCode c \<and> charCode c \<le> 122)"

definition is_upper :: "char \<Rightarrow> bool" where
  "is_upper c = (65 \<le> charCode c \<and> charCode c \<le> 90)"

text \<open>The class \<open>[a-z0-9]\<close>.\<close>

definition is_lower_alnum :: "char \<Rightarrow> bool" where
  "is_lower_alnum c = (is_lower c \<or> is_digit c)"

text \<open>The class \<open>\<bslash>w\<close>, that is \<open>[A-Za-z0-9_]\<close>.\<close>

definition is_word_char :: "char \<Rightarrow> bool" where
  "is_word_char c = (is_lower c \<or> is_upper c \<or> is_digit c \<or> c = CHR ''_'')"

text \<open>
  The class \<open>\<bslash>s\<close> below code unit 256: tab, line feed, vertical tab, form feed,
  carriage return, space and the no-break space.
\<close>

definition is_whitespace :: "char \<Rightarrow> bool" where
  "is_whitespace c = (charCode c \<in> {9, 10, 11, 12, 13, 32, 160})"

text \<open>
  \<open>String.prototype.toLowerCase\<close> on code units below 256: \<open>A-Z\<close> and the
  Latin-1 capitals (192 to 222 without the multiplication sign 215) move up by 32.
\<close>

definition toLowerCase_char :: "char \<Rightarrow> char" where
  "toLowerCase_char c =
     (let n = charCode c in
      if (65 \<le> n \<and> n \<le> 90) \<or> (192 \<le> n \<and> n \<le> 222 \<and> n \<noteq> 215)
      then char_of (n + 32) else c)"

definition toLowerCase :: "string \<Rightarrow> string" where
  "toLowerCase s = map toLowerCase_char s"

text \<open>The decimal numeral a template literal \<open>${n}\<close> prints for a non-negative integer.\<close>

definition digit_char :: "nat \<Rightarrow> char" where
  "digit_char d = char_of (48 + d)"

fun decimal :: "nat \<Rightarrow> string" where
  "decimal n =
     (if n < 10 then [digit_char n]
      else decimal (n div 10) @ [digit_char (n mod 10)])"

declare decimal.simps [simp del]

section \<open>JavaScript numbers\<close>

text \<open>
  A JavaScript number is an IEEE 754 double. The scorer forms only finite non-negative
  numbers, and the model writes such a number as a fraction: a numerator and a
  denominator that is a power of two. A count or a length is an integer below \<open>2^53\<close>
  and is a double as it stands.
\<close>

type_synonym double = "nat \<times> nat"

definition double_of_nat :: "nat \<Rightarrow> double" where
  "double_of_nat n = (n, 1)"

text \<open>The number of binary digits of a natural number.\<close>

fun bits :: "nat \<Rightarrow> nat" where
  "bits n = (if n = 0 then 0 else Suc (bits (n div 2)))"

declare bits.simps [simp del]

text \<open>The fraction \<open>p / q\<close> multiplied by \<open>2^s\<close>, for an exponent of either sign.\<close>

definition scale2 :: "nat \<Rightarrow> nat \<Rightarrow> int \<Rightarrow> nat \<times> nat" where
  "scale2 p q s = (if 0 \<le> s then (p * 2 ^ nat s, q) else (p, q * 2 ^ nat (- s)))"

text \<open>The integer nearest to \<open>P / Q\<close>, the even one when two are equally near.\<close>

definition round_nearest_even :: "nat \<Rightarrow> nat \<Rightarrow> nat" where
  "round_nearest_even P Q =
     (let m0 = P div Q; r = P mod Q
      in if Q < 2 * r \<or> (2 * r = Q \<and> odd m0) then m0 + 1 else m0)"

text \<open>
  The double that an arithmetic operation returns for the exact result \<open>p / q\<close>: the
  nearest number with a significand of 53 binary digits, ties to the even significand.
  The exact result is first scaled by a power of two into the interval from \<open>2^52\<close> to
  \<open>2^53\<close>, then rounded to an integer and scaled back. Underflow and overflow are not
  modelled: the quotients and products of the scorer stay far inside the normal range.
\<close>

definition round_to_double :: "nat \<Rightarrow> nat \<Rightarrow> double" where
  "round_to_double p q =
     (if p = 0 then (0, 1)
      else
        let sh = int (bits p) - int (bits q);
            (P0, Q0) = scale2 p q (53 - sh);
            (P, Q, e) = (if 2 ^ 53 * Q0 \<le> P0 then (P0, 2 * Q0, 52 - sh) else (P0, Q0, 53 - sh))
        in scale2 (round_nearest_even P Q) 1 (- e))"

text \<open>
  \<open>x / y\<close> and \<open>x * y\<close> on doubles. The divisor of the scorer is the length of the
  result of \<open>split\<close>, which is never zero.
\<close>

definition double_div :: "double \<Rightarrow> double \<Rightarrow> double" where
  "double_div x y = round_to_double (fst x * snd y) (snd x * fst y)"

definition double_mul :: "double \<Rightarrow> double \<Rightarrow> double" where
  "double_mul x y = round_to_double (fst x * fst y) (snd x * snd y)"

text \<open>
  \<open>x.toFixed(2)\<close> for a number below \<open>10^21\<close>: the integer \<open>n\<close> for which
  \<open>n / 100\<close> is nearest to the exact value of \<open>x\<close>, the larger one on a tie, printed
  with two decimals.
\<close>

definition hundredths :: "double \<Rightarrow> nat" where
  "hundredths x = (200 * fst x + snd x) div (2 * snd x)"

definition toFixed2 :: "double \<Rightarrow> string" where
  "toFixed2 x =
     (let n = hundredths x
      in decimal (n div 100) @ ''.'' @ [digit_char (n mod 100 div 10), digit_char (n mod 10)])"

section \<open>Slug Allocator\<close>

subsection \<open>Normalisation\<close>

text \<open>
  Modelled from the spec: \<open>slugify(title, { lower: true, strict: true })\<close> calls the
  \<open>slugify\<close> package, a dependency that is not among the sources. The specification
  gives its normalisation in three steps: lowercase the title; collapse every run of
  characters outside \<open>[a-z0-9]\<close> into a single hyphen; trim leading and trailing
  hyphens. \<open>collapse_runs\<close> is the second step; its flag says whether the previous
  character was part of such a run.
\<close>

fun collapse_runs :: "bool \<Rightarrow> string \<Rightarrow> string" where
  "collapse_runs in_run [] = []"
| "collapse_runs in_run (c # cs) =
     (if is_lower_alnum c then c # collapse_runs False cs
      else if in_run then collapse_runs True cs
      else CHR ''-'' # collapse_runs True cs)"

text \<open>
  Modelled from the spec: the third step of the normalisation, which removes the hyphens at
  both ends.
\<close>

definition trim_hyphens :: "string \<Rightarrow> string" where
  "trim_hyphens s =
     rev (dropWhile (\<lambda>c. c = CHR ''-'') (rev (dropWhile (\<lambda>c. c = CHR ''-'') s)))"

text \<open>
  Modelled from the spec: the normalisation as a whole, standing for the call of the
  missing \<open>slugify\<close> package.
\<close>

definition slugify :: "string \<Rightarrow> string" where
  "slugify title = trim_hyphens (collapse_runs False (toLowerCase title))"

text \<open>
  The pattern \<open>^[a-z0-9]+(-[a-z0-9]+)*$\<close> as a two-state automaton: the flag says
  that the current segment already holds a character, so that a hyphen or the end of
  the string is allowed next.
\<close>

fun slug_pattern_from :: "bool \<Rightarrow> string \<Rightarrow> bool" where
  "slug_pattern_from seg [] = seg"
| "slug_pattern_from seg (c # cs) =
     (if is_lower_alnum c then slug_pattern_from True cs
      else if c = CHR ''-'' \<and> seg then slug_pattern_from False cs
      else False)"

definition matches_slug_pattern :: "string \<Rightarrow> bool" where
  "matches_slug_pattern s = slug_pattern_from False s"

subsection \<open>The posts table\<close>

text \<open>
  A row of \<open>posts\<close> with the columns the allocator and the update handler read or
  write. The table is a list of rows; \<open>findUnique\<close> returns the row with the given
  value in a unique column, if there is one.
\<close>

record post =
  post_id :: string
  post_title :: string
  post_slug :: string
  post_content :: string
  post_authorId :: string

type_synonym posts = "post list"

definition findUnique_slug :: "posts \<Rightarrow> string \<Rightarrow> post option" where
  "findUnique_slug db s = find (\<lambda>p. post_slug p = s) db"

definition findUnique_id :: "posts \<Rightarrow> string \<Rightarrow> post option" where
  "findUnique_id db i = find (\<lambda>p. post_id p = i) db"

subsection \<open>generateUniqueSlug\<close>

text \<open>
  \<open>postId && existingPost.id === postId\<close>: the exclude identifier is \<open>null\<close> by
  default, and a string is truthy when it is not empty.
\<close>

definition owned_by :: "string option \<Rightarrow> post \<Rightarrow> bool" where
  "owned_by postId existingPost =
     (case postId of
        None \<Rightarrow> False
      | Some i \<Rightarrow> i \<noteq> [] \<and> post_id existingPost = i)"

text \<open>The candidate \<open>`${baseSlug}-${counter}`\<close>.\<close>

definition suffixed :: "string \<Rightarrow> nat \<Rightarrow> string" where
  "suffixed baseSlug counter = baseSlug @ ''-'' @ decimal counter"

lemma digit_char_inj:
  assumes "a < 10" and "b < 10" and "digit_char a = digit_char b"
  shows "a = b"
proof -
  have "of_char (digit_char a) = (of_char (digit_char b) :: nat)"
    using assms(3) by simp
  then have "(48 + a) mod 256 = (48 + b) mod 256"
    by (simp add: digit_char_def)
  with assms(1,2) show ?thesis by simp
qed

lemma decimal_nonempty: "decimal n \<noteq> []"
  by (subst decimal.simps) simp

lemma decimal_inj: "decimal n = decimal m \<Longrightarrow> n = m"
proof (induction n arbitrary: m rule: decimal.induct)
  case (1 n)
  show ?case
  proof (cases "n < 10")
    case small_n: True
    show ?thesis
    proof (cases "m < 10")
      case True
      with small_n "1.prems" show ?thesis
        by (simp add: decimal.simps [of n] decimal.simps [of m] digit_char_inj)
    next
      case False
      with small_n "1.prems" decimal_nonempty [of "m div 10"] show ?thesis
        by (simp add: decimal.simps [of n] decimal.simps [of m])
    qed
  next
    case big_n: False
    show ?thesis
    proof (cases "m < 10")
      case True
      with big_n "1.prems" decimal_nonempty [of "n div 10"] show ?thesis
        by (simp add: decimal.simps [of n] decimal.simps [of m])
    next
      case False
      with big_n "1.prems"
      have eq: "decimal (n div 10) = decimal (m div 10)"
        and dg: "digit_char (n mod 10) = digit_char (m mod 10)"
        by (simp_all add: decimal.simps [of n] decimal.simps [of m])
      from "1.IH" [OF big_n eq] have "n div 10 = m div 10" .
      moreover from dg have "n mod 10 = m mod 10"
        by (auto intro: digit_char_inj)
      ultimately show ?thesis
        by (metis div_mult_mod_eq)
    qed
  qed
qed

lemma suffixed_inj: "suffixed b n = suffixed b m \<Longrightarrow> n = m"
  by (simp add: suffixed_def decimal_inj)

lemma finite_later_taken: "finite {k. c \<le> k \<and> suffixed b k \<in> set xs}"
proof -
  have "inj (suffixed b)"
    by (rule injI) (rule suffixed_inj)
  then have "finite (suffixed b -` set xs)"
    by (simp add: finite_vimageI)
  then show ?thesis
    by (rule rev_finite_subset) auto
qed

lemma later_taken_step:
  "{k. c \<le> k \<and> suffixed b k \<in> S} =
     (if suffixed b c \<in> S then insert c {k. Suc c \<le> k \<and> suffixed b k \<in> S}
      else {k. Suc c \<le> k \<and> suffixed b k \<in> S})"
  by (auto simp: Suc_le_eq le_less)

lemma findUnique_slug_Some: "findUnique_slug db s = Some p \<Longrightarrow> s \<in> set (map post_slug db)"
  by (auto simp: findUnique_slug_def find_Some_iff)

text \<open>
  The probe loop \<open>while (true)\<close> with its state \<open>slug\<close> and \<open>counter\<close>. It
  returns both: the slug is the allocator's result, and the counter is what the
  \<open>generate-slug\<close> endpoint compares with 1.
\<close>

function probe_loop :: "posts \<Rightarrow> string option \<Rightarrow> string \<Rightarrow> string \<Rightarrow> nat \<Rightarrow> string \<times> nat" where
  "probe_loop db postId baseSlug slug counter =
     (case findUnique_slug db slug of
        None \<Rightarrow> (slug, counter)
      | Some existingPost \<Rightarrow>
          if owned_by postId existingPost then (slug, counter)
          else probe_loop db postId baseSlug (suffixed baseSlug counter) (counter + 1))"
  by pat_completeness auto

termination
proof (relation "measure (\<lambda>(db, postId, baseSlug, slug, counter).
    2 * card {k. counter \<le> k \<and> suffixed baseSlug k \<in> set (map post_slug db)}
    + (if slug \<in> set (map post_slug db) then 1 else 0))", goal_cases)
  case 1
  show ?case by simp
next
  case (2 db postId baseSlug slug counter existingPost)
  let ?S = "set (map post_slug db)"
  let ?L = "{k. Suc counter \<le> k \<and> suffixed baseSlug k \<in> ?S}"
  have fin: "finite ?L"
    by (rule finite_later_taken)
  have here: "slug \<in> ?S"
    using 2(1) by (rule findUnique_slug_Some)
  have notin: "counter \<notin> ?L"
    by simp
  show ?case
    using here fin notin
    by (simp add: later_taken_step [of counter baseSlug ?S] del: set_map)
qed

declare probe_loop.simps [simp del]

definition generateUniqueSlug :: "posts \<Rightarrow> string \<Rightarrow> string option \<Rightarrow> string" where
  "generateUniqueSlug db title postId =
     (let baseSlug = slugify title in fst (probe_loop db postId baseSlug baseSlug 1))"

text \<open>
  The break condition of the loop, \<open>!existingPost || (postId && existingPost.id === postId)\<close>,
  as a predicate on a candidate: no row holds it, or the row that does is the excluded one.
\<close>

definition unused_or_own :: "posts \<Rightarrow> string option \<Rightarrow> string \<Rightarrow> bool" where
  "unused_or_own db postId s =
     (case findUnique_slug db s of None \<Rightarrow> True | Some p \<Rightarrow> owned_by postId p)"

text \<open>
  The candidates in the order the loop probes them: the base slug first, then the base
  slug with the suffixes 1, 2, ...
\<close>

definition candidate :: "string \<Rightarrow> nat \<Rightarrow> string" where
  "candidate baseSlug k = (if k = 0 then baseSlug else suffixed baseSlug k)"

subsection \<open>The update handler\<close>

text \<open>
  \<open>router.put('/:id')\<close>, entered after the authentication middleware with the
  authenticated user. Of the request body the model keeps the title and the content, with
  their validation rules; the other fields are copied to columns that the slug logic never
  reads. \<open>prisma.post.update\<close> rewrites the row with the given primary key.
\<close>

datatype role = ADMIN | EDITOR | AUTHOR

record user =
  user_id :: string
  user_role :: role

record put_body =
  body_title :: string
  body_content :: string

datatype http_error = VALIDATION_FAILED | POST_NOT_FOUND | INSUFFICIENT_PERMISSIONS

definition postValidation :: "put_body \<Rightarrow> bool" where
  "postValidation b =
     (1 \<le> length (body_title b) \<and> length (body_title b) \<le> 200 \<and> 1 \<le> length (body_content b))"

fun update_where_id :: "posts \<Rightarrow> string \<Rightarrow> (post \<Rightarrow> post) \<Rightarrow> posts" where
  "update_where_id [] i f = []"
| "update_where_id (p # ps) i f =
     (if post_id p = i then f p # ps else p # update_where_id ps i f)"

definition put_post :: "posts \<Rightarrow> user \<Rightarrow> string \<Rightarrow> put_body \<Rightarrow> http_error + posts" where
  "put_post db req_user i b =
     (if \<not> postValidation b then Inl VALIDATION_FAILED
      else case findUnique_id db i of
        None \<Rightarrow> Inl POST_NOT_FOUND
      | Some existingPost \<Rightarrow>
          if user_role req_user \<noteq> ADMIN \<and> post_authorId existingPost \<noteq> user_id req_user
          then Inl INSUFFICIENT_PERMISSIONS
          else
            let slug = (if body_title b \<noteq> post_title existingPost
                        then generateUniqueSlug db (body_title b) (Some i)
                        else post_slug existingPost)
            in Inr (update_where_id db i
                     (\<lambda>p. p\<lparr>post_title := body_title b, post_slug := slug,
                            post_content := body_content b\<rparr>)))"

section \<open>Regular expressions of the scorers\<close>

text \<open>
  \<open>s.split(/\<bslash>s+/)\<close>: the pieces between maximal runs of whitespace. A string that
  begins or ends with whitespace yields an empty first or last piece, and the empty
  string yields one empty piece. The flag says that the previous character belonged to
  a separator.
\<close>

fun split_ws_from :: "bool \<Rightarrow> string \<Rightarrow> string list" where
  "split_ws_from in_sep [] = [[]]"
| "split_ws_from in_sep (c # cs) =
     (if is_whitespace c
      then (if in_sep then split_ws_from True cs else [] # split_ws_from True cs)
      else (case split_ws_from False cs of
              w # ws \<Rightarrow> (c # w) # ws
            | [] \<Rightarrow> [[c]]))"

definition split_ws :: "string \<Rightarrow> string list" where
  "split_ws s = split_ws_from False s"

text \<open>
  A sequence of character classes matched at the head of a string; the result is the
  rest of the string.
\<close>

fun match_classes :: "(char \<Rightarrow> bool) list \<Rightarrow> string \<Rightarrow> string option" where
  "match_classes [] s = Some s"
| "match_classes (P # Ps) [] = None"
| "match_classes (P # Ps) (c # cs) = (if P c then match_classes Ps cs else None)"

text \<open>\<open>[^>]*>\<close> at the head of a string: the text up to the first \<open>>\<close> and the rest.\<close>

fun upto_gt :: "string \<Rightarrow> (string \<times> string) option" where
  "upto_gt [] = None"
| "upto_gt (c # cs) =
     (if c = CHR ''>'' then Some ([c], cs)
      else (case upto_gt cs of None \<Rightarrow> None | Some (m, r) \<Rightarrow> Some (c # m, r)))"

text \<open>
  One match of \<open>prefix[^>]*>\<close> at the head of a string, where the prefix is a sequence
  of character classes: the matched text and the rest.
\<close>

definition tag_at :: "(char \<Rightarrow> bool) list \<Rightarrow> string \<Rightarrow> (string \<times> string) option" where
  "tag_at pat s =
     (case match_classes pat s of
        None \<Rightarrow> None
      | Some r1 \<Rightarrow>
          (case upto_gt r1 of
             None \<Rightarrow> None
           | Some (m, r2) \<Rightarrow> Some (take (length s - length r2) s, r2)))"

lemma match_classes_length: "match_classes pat s = Some r \<Longrightarrow> length r \<le> length s"
  by (induction pat s rule: match_classes.induct) (auto split: if_splits)

lemma upto_gt_length: "upto_gt s = Some (m, r) \<Longrightarrow> length r < length s"
  by (induction s arbitrary: m r) (auto split: if_splits option.splits)

lemma tag_at_length: "tag_at pat s = Some (m, r) \<Longrightarrow> length r < length s"
  by (auto simp: tag_at_def split: option.splits dest!: match_classes_length upto_gt_length)

text \<open>
  \<open>s.match(/prefix[^>]*>/g) || []\<close>: the matches from left to right, each search
  resuming after the previous match.
\<close>

function match_tags :: "(char \<Rightarrow> bool) list \<Rightarrow> string \<Rightarrow> string list" where
  "match_tags pat s =
     (if s = [] then []
      else (case tag_at pat s of
              Some (m, r) \<Rightarrow> m # match_tags pat r
            | None \<Rightarrow> match_tags pat (tl s)))"
  by pat_completeness auto

termination
  by (relation "measure (\<lambda>(pat, s). length s)") (auto dest: tag_at_length)

declare match_tags.simps [simp del]

text \<open>\<open>s.replace(/<[^>]*>/g, '')\<close>.\<close>

function strip_tags :: "string \<Rightarrow> string" where
  "strip_tags s =
     (if s = [] then []
      else (case tag_at [\<lambda>c. c = CHR ''<''] s of
              Some (m, r) \<Rightarrow> strip_tags r
            | None \<Rightarrow> hd s # strip_tags (tl s)))"
  by pat_completeness auto

termination
  by (relation "measure length") (auto dest: tag_at_length)

declare strip_tags.simps [simp del]

text \<open>A letter under the flag \<open>i\<close>.\<close>

definition letter_ci :: "char \<Rightarrow> char \<Rightarrow> bool" where
  "letter_ci l c = (toLowerCase_char c = l)"

text \<open>The prefixes \<open><h[1-6]\<close>, \<open><img\<close> and \<open><a\<close> of the three tag patterns.\<close>

definition heading_pattern :: "(char \<Rightarrow> bool) list" where
  "heading_pattern =
     [\<lambda>c. c = CHR ''<'', letter_ci CHR ''h'', \<lambda>c. 49 \<le> charCode c \<and> charCode c \<le> 54]"

definition image_pattern :: "(char \<Rightarrow> bool) list" where
  "image_pattern =
     [\<lambda>c. c = CHR ''<'', letter_ci CHR ''i'', letter_ci CHR ''m'', letter_ci CHR ''g'']"

definition link_pattern :: "(char \<Rightarrow> bool) list" where
  "link_pattern = [\<lambda>c. c = CHR ''<'', letter_ci CHR ''a'']"

text \<open>\<open>s.includes(sub)\<close>.\<close>

fun js_includes :: "string \<Rightarrow> string \<Rightarrow> bool" where
  "js_includes [] sub = (sub = [])"
| "js_includes (c # cs) sub = (take (length sub) (c # cs) = sub \<or> js_includes cs sub)"

text \<open>\<open>/^[a-z0-9-]+$/.test(s)\<close>.\<close>

definition slug_chars_only :: "string \<Rightarrow> bool" where
  "slug_chars_only s = (s \<noteq> [] \<and> list_all (\<lambda>c. is_lower_alnum c \<or> c = CHR ''-'') s)"

section \<open>Content Scorer, server side\<close>

text \<open>
  \<open>analyzeSEO(content, title, metaDescription, slug)\<close> of the SEO routes. A missing
  (\<open>undefined\<close>) argument behaves like the empty string in every test the function
  makes, so the arguments are strings. The \<open>checks\<close> and \<open>keywordDensity\<close> objects
  are the lists of their own properties in the order of enumeration; the keys of \<open>checks\<close>
  are fixed names, each assigned once.
\<close>

record check =
  check_status :: string
  check_message :: string

record keyword_entry =
  kw_count :: nat
  kw_density :: string

record analysis =
  score :: nat
  issues :: "string list"
  suggestions :: "string list"
  checks :: "(string \<times> check) list"
  keywordDensity :: "(string \<times> keyword_entry) list option"
  status :: "string option"

definition initial_analysis :: analysis where
  "initial_analysis =
     \<lparr>score = 0, issues = [], suggestions = [], checks = [], keywordDensity = None, status = None\<rparr>"

definition push_issue :: "string \<Rightarrow> analysis \<Rightarrow> analysis" where
  "push_issue msg a = a\<lparr>issues := issues a @ [msg]\<rparr>"

definition push_suggestion :: "string \<Rightarrow> analysis \<Rightarrow> analysis" where
  "push_suggestion msg a = a\<lparr>suggestions := suggestions a @ [msg]\<rparr>"

definition set_check :: "string \<Rightarrow> string \<Rightarrow> string \<Rightarrow> analysis \<Rightarrow> analysis" where
  "set_check key st msg a =
     a\<lparr>checks := AList.update key \<lparr>check_status = st, check_message = msg\<rparr> (checks a)\<rparr>"

definition add_score :: "nat \<Rightarrow> analysis \<Rightarrow> analysis" where
  "add_score n a = a\<lparr>score := score a + n\<rparr>"

definition title_analysis :: "string \<Rightarrow> analysis \<Rightarrow> analysis" where
  "title_analysis title a =
     (if length title = 0 then
        set_check ''title'' ''error'' ''Title is required'' (push_issue ''Title is missing'' a)
      else if length title < 30 then
        set_check ''title'' ''warning''
          (''Title is '' @ decimal (length title) @ '' characters (recommended: 30-60)'')
          (push_issue ''Title is too short (recommended: 30-60 characters)'' a)
      else if length title > 60 then
        set_check ''title'' ''warning''
          (''Title is '' @ decimal (length title) @ '' characters (recommended: 30-60)'')
          (push_issue ''Title is too long (recommended: 30-60 characters)'' a)
      else
        set_check ''title'' ''success''
          (''Title length is optimal ('' @ decimal (length title) @ '' characters)'')
          (add_score 20 a))"

definition meta_analysis :: "string \<Rightarrow> analysis \<Rightarrow> analysis" where
  "meta_analysis metaDescription a =
     (if length metaDescription = 0 then
        set_check ''metaDescription'' ''error'' ''Meta description is required for SEO''
          (push_issue ''Meta description is missing'' a)
      else if length metaDescription < 120 then
        set_check ''metaDescription'' ''warning''
          (''Meta description is '' @ decimal (length metaDescription)
             @ '' characters (recommended: 120-160)'')
          (push_issue ''Meta description is too short (recommended: 120-160 characters)'' a)
      else if length metaDescription > 160 then
        set_check ''metaDescription'' ''warning''
          (''Meta description is '' @ decimal (length metaDescription)
             @ '' characters (recommended: 120-160)'')
          (push_issue ''Meta description is too long (recommended: 120-160 characters)'' a)
      else
        set_check ''metaDescription'' ''success''
          (''Meta description length is optimal ('' @ decimal (length metaDescription)
             @ '' characters)'')
          (add_score 20 a))"

definition slug_analysis :: "string \<Rightarrow> analysis \<Rightarrow> analysis" where
  "slug_analysis slug a =
     (if length slug = 0 then
        set_check ''slug'' ''error'' ''URL slug is required'' (push_issue ''URL slug is missing'' a)
      else if length slug > 75 then
        set_check ''slug'' ''warning''
          (''URL slug is '' @ decimal (length slug) @ '' characters (recommended: under 75)'')
          (push_issue ''URL slug is too long (recommended: under 75 characters)'' a)
      else if \<not> slug_chars_only slug then
        set_check ''slug'' ''warning'' ''URL slug should be lowercase with hyphens''
          (push_issue ''URL slug should only contain lowercase letters, numbers, and hyphens'' a)
      else
        set_check ''slug'' ''success'' ''URL slug is SEO-friendly'' (add_score 15 a))"

definition wordCount_check :: "nat \<Rightarrow> analysis \<Rightarrow> analysis" where
  "wordCount_check wordCount a =
     (if wordCount < 300 then
        set_check ''wordCount'' ''warning''
          (''Content has '' @ decimal wordCount @ '' words (recommended: 300+)'')
          (push_issue ''Content is too short (recommended: 300+ words for SEO)'' a)
      else
        set_check ''wordCount'' ''success'' (''Content has '' @ decimal wordCount @ '' words'')
          (add_score 15 a))"

definition headings_check :: "string list \<Rightarrow> analysis \<Rightarrow> analysis" where
  "headings_check headingMatches a =
     (if length headingMatches = 0 then
        set_check ''headings'' ''warning'' ''No headings found in content''
          (push_suggestion ''Add headings (H1, H2, H3) to improve content structure'' a)
      else
        set_check ''headings'' ''success''
          (''Found '' @ decimal (length headingMatches) @ '' headings'') (add_score 10 a))"

definition images_check :: "string list \<Rightarrow> analysis \<Rightarrow> analysis" where
  "images_check imageMatches a =
     (if length imageMatches > 0 then
        (let imagesWithoutAlt =
               filter (\<lambda>img. \<not> js_includes img ''alt='' \<or> js_includes img (''alt='' @ [CHR 0x22, CHR 0x22]))
                 imageMatches
         in if length imagesWithoutAlt > 0 then
              set_check ''images'' ''warning''
                (decimal (length imagesWithoutAlt) @ '' of '' @ decimal (length imageMatches)
                   @ '' images missing alt text'')
                (push_issue (decimal (length imagesWithoutAlt) @ '' images missing alt text'') a)
            else
              set_check ''images'' ''success''
                (''All '' @ decimal (length imageMatches) @ '' images have alt text'')
                (add_score 10 a))
      else a)"

definition links_check :: "string list \<Rightarrow> analysis \<Rightarrow> analysis" where
  "links_check linkMatches a =
     (if length linkMatches = 0 then
        set_check ''links'' ''info'' ''No links found in content''
          (push_suggestion ''Add internal links to improve SEO and user experience'' a)
      else
        set_check ''links'' ''success'' (''Found '' @ decimal (length linkMatches) @ '' links'')
          (add_score 5 a))"

definition content_analysis :: "string \<Rightarrow> analysis \<Rightarrow> analysis" where
  "content_analysis content a =
     (if length content = 0 then
        set_check ''content'' ''error'' ''Content is required'' (push_issue ''Content is missing'' a)
      else
        (let wordCount = length (split_ws content);
             headingMatches = match_tags heading_pattern content;
             imageMatches = match_tags image_pattern content;
             linkMatches = match_tags link_pattern content
         in links_check linkMatches
              (images_check imageMatches
                (headings_check headingMatches
                  (wordCount_check wordCount a)))))"

text \<open>The four analyses in the order of the source, before the keyword block.\<close>

definition seo_checks :: "string \<Rightarrow> string \<Rightarrow> string \<Rightarrow> string \<Rightarrow> analysis" where
  "seo_checks content title metaDescription slug =
     content_analysis content
       (slug_analysis slug
         (meta_analysis metaDescription
           (title_analysis title initial_analysis)))"

subsection \<open>Keyword density\<close>

text \<open>
  \<open>new RegExp(`\<bslash>\<bslash>b${word}\<bslash>\<bslash>b`, 'gi')\<close> compiles the title word as a pattern. A word
  without any of the syntax characters \<open>\<bslash> ^ $ . * + ? ( ) [ ] { } |\<close> is a literal, and
  its matches are counted by \<open>count_word\<close> below. Any other word is a pattern of its own:
  what it matches, or whether the constructor throws a \<open>SyntaxError\<close>, is decided by the
  regular-expression engine of the JavaScript runtime, which the model takes as a parameter:
  \<open>engine word text\<close> is the number of matches of that pattern in the text, or
  \<open>None\<close> for the \<open>SyntaxError\<close>.
\<close>

type_synonym regexp_engine = "string \<Rightarrow> string \<Rightarrow> nat option"

definition regex_literal :: "string \<Rightarrow> bool" where
  "regex_literal word =
     list_all (\<lambda>c. charCode c \<notin> {92, 94, 36, 46, 42, 43, 63, 40, 41, 91, 93, 123, 125, 124}) word"

text \<open>
  The assertion \<open>\<bslash>b\<close> between two neighbouring positions: exactly one of them is a
  word character. \<open>None\<close> is the start or the end of the text.
\<close>

definition is_word_opt :: "char option \<Rightarrow> bool" where
  "is_word_opt x = (case x of None \<Rightarrow> False | Some c \<Rightarrow> is_word_char c)"

definition word_boundary :: "char option \<Rightarrow> char option \<Rightarrow> bool" where
  "word_boundary a b = (is_word_opt a \<noteq> is_word_opt b)"

definition head_opt :: "string \<Rightarrow> char option" where
  "head_opt s = (case s of [] \<Rightarrow> None | c # _ \<Rightarrow> Some c)"

definition word_at :: "char option \<Rightarrow> string \<Rightarrow> string \<Rightarrow> bool" where
  "word_at prev word s =
     (take (length word) s = word
      \<and> word_boundary prev (head_opt s)
      \<and> word_boundary (Some (last word)) (head_opt (drop (length word) s)))"

text \<open>
  \<open>(text.match(regex) || []).length\<close> for a literal word: the matches are counted from
  left to right and the search resumes after each match. \<open>prev\<close> is the character
  before the current position. The text is already lowercase and so is the word, so the
  flag \<open>i\<close> compares equal characters. The source calls it with words longer than three
  characters only.
\<close>

function count_word :: "string \<Rightarrow> char option \<Rightarrow> string \<Rightarrow> nat" where
  "count_word word prev s =
     (if s = [] \<or> word = [] then 0
      else if word_at prev word s
        then 1 + count_word word (Some (last word)) (drop (length word) s)
      else count_word word (Some (hd s)) (tl s))"
  by pat_completeness auto

termination
  by (relation "measure (\<lambda>(word, prev, s). length s)") auto

declare count_word.simps [simp del]

definition match_count :: "regexp_engine \<Rightarrow> string \<Rightarrow> string \<Rightarrow> nat option" where
  "match_count engine word contentLower =
     (if regex_literal word then Some (count_word word None contentLower)
      else engine word contentLower)"

text \<open>
  The own properties of the object \<open>keywordDensities\<close>, in the order in which they are
  enumerated and serialised: array indices (canonical decimal numerals up to
  \<open>2^32 - 2\<close>) first, in ascending order, then the other keys in the order of their
  first assignment. Assigning to an existing key replaces its value in place. Assigning
  an object to \<open>__proto__\<close> replaces the prototype and creates no own property.
\<close>

definition decimal_value :: "string \<Rightarrow> nat" where
  "decimal_value s = foldl (\<lambda>n c. 10 * n + (charCode c - 48)) 0 s"

definition is_array_index :: "string \<Rightarrow> bool" where
  "is_array_index key =
     (key \<noteq> [] \<and> list_all is_digit key \<and> (hd key \<noteq> CHR ''0'' \<or> key = ''0'')
      \<and> decimal_value key \<le> 4294967294)"

fun insert_index :: "nat \<Rightarrow> string \<Rightarrow> 'v \<Rightarrow> (string \<times> 'v) list \<Rightarrow> (string \<times> 'v) list" where
  "insert_index n key v [] = [(key, v)]"
| "insert_index n key v (p # props) =
     (if is_array_index (fst p) \<and> decimal_value (fst p) < n then p # insert_index n key v props
      else (key, v) # p # props)"

definition js_assign :: "string \<Rightarrow> 'v \<Rightarrow> (string \<times> 'v) list \<Rightarrow> (string \<times> 'v) list" where
  "js_assign key v props =
     (if key = ''__proto__'' then props
      else if key \<in> set (map fst props) then AList.update key v props
      else if is_array_index key then insert_index (decimal_value key) key v props
      else props @ [(key, v)])"

text \<open>
  The loop over the title words. \<open>None\<close> is the \<open>SyntaxError\<close> that leaves the
  function without a report.
\<close>

fun keyword_densities ::
  "regexp_engine \<Rightarrow> string list \<Rightarrow> string \<Rightarrow> string \<Rightarrow> (string \<times> keyword_entry) list
     \<Rightarrow> (string \<times> keyword_entry) list option" where
  "keyword_densities engine [] contentLower content keywordDensities = Some keywordDensities"
| "keyword_densities engine (word # titleWords) contentLower content keywordDensities =
     (if length word > 3 then
        (case match_count engine word contentLower of
           None \<Rightarrow> None
         | Some matches \<Rightarrow>
             (let density =
                    double_mul
                      (double_div (double_of_nat matches)
                         (double_of_nat (length (split_ws content))))
                      (double_of_nat 100)
              in keyword_densities engine titleWords contentLower content
                   (js_assign word \<lparr>kw_count = matches, kw_density = toFixed2 density\<rparr>
                      keywordDensities)))
      else keyword_densities engine titleWords contentLower content keywordDensities)"

definition keyword_analysis ::
  "regexp_engine \<Rightarrow> string \<Rightarrow> string \<Rightarrow> analysis \<Rightarrow> analysis option" where
  "keyword_analysis engine title content a =
     (if title \<noteq> [] \<and> content \<noteq> [] then
        (case keyword_densities engine (split_ws (toLowerCase title)) (toLowerCase content)
                content [] of
           None \<Rightarrow> None
         | Some keywordDensities \<Rightarrow> Some (a\<lparr>keywordDensity := Some keywordDensities\<rparr>))
      else Some a)"

subsection \<open>Final score and status\<close>

definition final_score :: "analysis \<Rightarrow> analysis" where
  "final_score a =
     (let s = min 100 (score a)
      in a\<lparr>score := s,
           status := Some (if s \<ge> 80 then ''excellent''
                           else if s \<ge> 60 then ''good''
                           else if s \<ge> 40 then ''needs-improvement''
                           else ''poor'')\<rparr>)"

definition analyzeSEO ::
  "regexp_engine \<Rightarrow> string \<Rightarrow> string \<Rightarrow> string \<Rightarrow> string \<Rightarrow> analysis option" where
  "analyzeSEO engine content title metaDescription slug =
     map_option final_score
       (keyword_analysis engine title content (seo_checks content title metaDescription slug))"

section \<open>Content Scorer, client side\<close>

text \<open>
  \<open>analyzeSEO\<close> inside the \<open>SEOAnalyzer\<close> component. Its inputs are the component's
  properties; its results are the values it stores with \<open>setSeoScore\<close>, \<open>setChecks\<close>,
  \<open>setWordCount\<close> and \<open>setReadingTime\<close>. The keyword table it also stores
  (\<open>calculateKeywordDensity\<close>) does not enter the score and is left out.
\<close>

record SEOCheck =
  seo_id :: string
  seo_name :: string
  seo_status :: string
  seo_message :: string
  seo_score :: nat

text \<open>The local variables \<open>checks\<close> and \<open>totalScore\<close>.\<close>

record scoring =
  sc_checks :: "SEOCheck list"
  sc_totalScore :: nat

record seo_report =
  seoScore :: nat
  report_checks :: "SEOCheck list"
  report_wordCount :: nat
  report_readingTime :: nat

definition push_check :: "string \<Rightarrow> string \<Rightarrow> string \<Rightarrow> string \<Rightarrow> nat \<Rightarrow> scoring \<Rightarrow> scoring" where
  "push_check i n st msg sc s =
     s\<lparr>sc_checks := sc_checks s @
          [\<lparr>seo_id = i, seo_name = n, seo_status = st, seo_message = msg, seo_score = sc\<rparr>]\<rparr>"

definition add_total :: "nat \<Rightarrow> scoring \<Rightarrow> scoring" where
  "add_total n s = s\<lparr>sc_totalScore := sc_totalScore s + n\<rparr>"

definition title_checks :: "string \<Rightarrow> scoring \<Rightarrow> scoring" where
  "title_checks title s =
     (if length title = 0 then
        push_check ''title-missing'' ''Title Missing'' ''error'' ''Post title is required for SEO'' 0 s
      else if length title < 30 then
        add_total 5 (push_check ''title-short'' ''Title Too Short'' ''warning''
          (''Title is '' @ decimal (length title) @ '' characters. Aim for 50-60 characters.'') 5 s)
      else if length title > 60 then
        add_total 5 (push_check ''title-long'' ''Title Too Long'' ''warning''
          (''Title is '' @ decimal (length title) @ '' characters. Keep it under 60 characters.'') 5 s)
      else
        add_total 10 (push_check ''title-good'' ''Title Length'' ''success''
          (''Title length ('' @ decimal (length title) @ '' chars) is optimal for SEO.'') 10 s))"

definition meta_checks :: "string \<Rightarrow> scoring \<Rightarrow> scoring" where
  "meta_checks metaDescription s =
     (if length metaDescription = 0 then
        push_check ''meta-missing'' ''Meta Description Missing'' ''error''
          ''Meta description is crucial for search results'' 0 s
      else if length metaDescription < 120 then
        add_total 5 (push_check ''meta-short'' ''Meta Description Too Short'' ''warning''
          (''Meta description is '' @ decimal (length metaDescription)
             @ '' characters. Aim for 150-160 characters.'') 5 s)
      else if length metaDescription > 160 then
        add_total 5 (push_check ''meta-long'' ''Meta Description Too Long'' ''warning''
          (''Meta description is '' @ decimal (length metaDescription)
             @ '' characters. Keep it under 160 characters.'') 5 s)
      else
        add_total 10 (push_check ''meta-good'' ''Meta Description Length'' ''success''
          (''Meta description length ('' @ decimal (length metaDescription) @ '' chars) is optimal.'')
          10 s))"

definition content_checks :: "nat \<Rightarrow> scoring \<Rightarrow> scoring" where
  "content_checks wordCount s =
     (if wordCount < 300 then
        add_total 5 (push_check ''content-short'' ''Content Too Short'' ''warning''
          (''Content has '' @ decimal wordCount
             @ '' words. Aim for at least 300 words for better SEO.'') 5 s)
      else
        add_total 10 (push_check ''content-good'' ''Content Length'' ''success''
          (''Content length ('' @ decimal wordCount @ '' words) is good for SEO.'') 10 s))"

definition slug_checks :: "string \<Rightarrow> scoring \<Rightarrow> scoring" where
  "slug_checks slug s =
     (if length slug = 0 then
        push_check ''slug-missing'' ''URL Slug Missing'' ''error''
          ''URL slug is required for SEO-friendly URLs'' 0 s
      else if length slug > 60 then
        add_total 5 (push_check ''slug-long'' ''URL Slug Too Long'' ''warning''
          ''Keep URL slug under 60 characters for better readability'' 5 s)
      else
        add_total 10 (push_check ''slug-good'' ''URL Slug'' ''success'' ''URL slug is SEO-friendly'' 10 s))"

definition featured_image_check :: "string \<Rightarrow> scoring \<Rightarrow> scoring" where
  "featured_image_check featuredImage s =
     (if featuredImage \<noteq> [] then
        add_total 10 (push_check ''image-present'' ''Featured Image'' ''success''
          ''Featured image helps with social sharing and engagement'' 10 s)
      else
        add_total 5 (push_check ''image-missing'' ''Featured Image Missing'' ''warning''
          ''Consider adding a featured image for better social sharing'' 5 s))"

definition tags_check :: "string list \<Rightarrow> scoring \<Rightarrow> scoring" where
  "tags_check tags s =
     (if length tags = 0 then
        add_total 5 (push_check ''tags-missing'' ''No Tags'' ''warning''
          ''Add relevant tags to improve content discoverability'' 5 s)
      else if length tags > 10 then
        add_total 7 (push_check ''tags-many'' ''Too Many Tags'' ''warning''
          ''Consider using fewer, more relevant tags (5-8 is optimal)'' 7 s)
      else
        add_total 10 (push_check ''tags-good'' ''Tags'' ''success''
          (''Good number of tags ('' @ decimal (length tags) @ '') for categorization'') 10 s))"

definition headings_checks :: "string list \<Rightarrow> scoring \<Rightarrow> scoring" where
  "headings_checks headingMatches s =
     (if length headingMatches = 0 then
        add_total 5 (push_check ''headings-missing'' ''No Headings'' ''warning''
          ''Use headings (H1, H2, H3) to structure your content'' 5 s)
      else
        add_total 10 (push_check ''headings-present'' ''Content Structure'' ''success''
          (''Good use of headings ('' @ decimal (length headingMatches) @ '' found)'') 10 s))"

text \<open>
  \<open>Math.round((totalScore / maxScore) * 100)\<close> in exact arithmetic, halves upwards.
  With the seven checks \<open>maxScore\<close> is 70 and \<open>totalScore\<close> is an integer, so the exact
  quotient is at least 1/14 away from every half and the floating-point result rounds
  to the same integer.
\<close>

definition round_percent :: "nat \<Rightarrow> nat \<Rightarrow> nat" where
  "round_percent totalScore maxScore = (200 * totalScore + maxScore) div (2 * maxScore)"

definition plain_words :: "string \<Rightarrow> string list" where
  "plain_words content = filter (\<lambda>word. length word > 0) (split_ws (strip_tags content))"

definition run_checks ::
  "string \<Rightarrow> string \<Rightarrow> string \<Rightarrow> string \<Rightarrow> string \<Rightarrow> string list \<Rightarrow> scoring" where
  "run_checks title content metaDescription slug featuredImage tags =
     headings_checks (match_tags heading_pattern content)
       (tags_check tags
         (featured_image_check featuredImage
           (slug_checks slug
             (content_checks (length (plain_words content))
               (meta_checks metaDescription
                 (title_checks title \<lparr>sc_checks = [], sc_totalScore = 0\<rparr>))))))"

definition SEOAnalyzer_analyzeSEO ::
  "string \<Rightarrow> string \<Rightarrow> string \<Rightarrow> string \<Rightarrow> string \<Rightarrow> string list \<Rightarrow> seo_report" where
  "SEOAnalyzer_analyzeSEO title content metaDescription slug featuredImage tags =
     (let words = plain_words content;
          s = run_checks title content metaDescription slug featuredImage tags;
          maxScore = length (sc_checks s) * 10
      in \<lparr>seoScore = round_percent (sc_totalScore s) maxScore,
          report_checks = sc_checks s,
          report_wordCount = length words,
          report_readingTime = (length words + 199) div 200\<rparr>)"

section \<open>Auxiliary predicates and example data\<close>

text \<open>
  The shape of a normalised title before trimming: only characters of \<open>[a-z0-9-]\<close>
  and no two hyphens in a row.
\<close>

definition valid_slug_char :: "char \<Rightarrow> bool" where
  "valid_slug_char c = (is_lower_alnum c \<or> c = CHR ''-'')"

fun no_double_hyphen :: "string \<Rightarrow> bool" where
  "no_double_hyphen [] = True"
| "no_double_hyphen [c] = True"
| "no_double_hyphen (c # d # cs) =
     (\<not> (c = CHR ''-'' \<and> d = CHR ''-'') \<and> no_double_hyphen (d # cs))"

text \<open>A table of three posts titled \<open>Foo\<close> with the slugs \<open>foo\<close>, \<open>foo-1\<close>, \<open>foo-2\<close>,
  their author, and an update request that keeps the title.\<close>

definition mk_post :: "string \<Rightarrow> string \<Rightarrow> string \<Rightarrow> post" where
  "mk_post i t s = \<lparr>post_id = i, post_title = t, post_slug = s, post_content = ''Body'', post_authorId = ''u1''\<rparr>"

definition foo_table :: posts where
  "foo_table = [mk_post ''p1'' ''Foo'' ''foo'', mk_post ''p2'' ''Foo'' ''foo-1'', mk_post ''p3'' ''Foo'' ''foo-2'']"

definition author_u1 :: user where
  "author_u1 = \<lparr>user_id = ''u1'', user_role = AUTHOR\<rparr>"

definition same_title_body :: put_body where
  "same_title_body = \<lparr>body_title = ''Foo'', body_content = ''Revised body''\<rparr>"

text \<open>
  The points the server-side analysis adds for a successful check, by the key of the
  check, and the points a check has earned.
\<close>

definition check_weight :: "string \<Rightarrow> nat" where
  "check_weight key =
     (if key = ''title'' then 20
      else if key = ''metaDescription'' then 20
      else if key = ''slug'' then 15
      else if key = ''wordCount'' then 15
      else if key = ''headings'' then 10
      else if key = ''images'' then 10
      else if key = ''links'' then 5
      else 0)"

definition awarded :: "string \<times> check \<Rightarrow> nat" where
  "awarded kc = (if check_status (snd kc) = ''success'' then check_weight (fst kc) else 0)"

definition tallied :: "analysis \<Rightarrow> bool" where
  "tallied a = (score a = sum_list (map awarded (checks a)))"

definition check_keys :: "analysis \<Rightarrow> string set" where
  "check_keys a = set (map fst (checks a))"

text \<open>Readers for single entries of a server-side report.\<close>

definition wordCount_entry :: "analysis \<Rightarrow> check option" where
  "wordCount_entry a = map_of (checks a) ''wordCount''"


definition check_statuses :: "analysis \<Rightarrow> (string \<times> string) list" where
  "check_statuses a = map (\<lambda>kc. (fst kc, check_status (snd kc))) (checks a)"

text \<open>
  The bookkeeping of the client-side analysis: a step appends one check worth at most ten
  points and adds its score to the total; the total is the sum of the scores so far.
\<close>

definition appends_check :: "scoring \<Rightarrow> scoring \<Rightarrow> bool" where
  "appends_check s s' =
     (\<exists>c. sc_checks s' = sc_checks s @ [c] \<and> sc_totalScore s' = sc_totalScore s + seo_score c
          \<and> seo_score c \<le> 10)"

definition balanced :: "scoring \<Rightarrow> bool" where
  "balanced s =
     (sc_totalScore s = sum_list (map seo_score (sc_checks s))
      \<and> (\<forall>c\<in>set (sc_checks s). seo_score c \<le> 10))"






text \<open>The rational value of a double, and the powers of two with integer exponents.\<close>

definition pow2 :: "int \<Rightarrow> real" where
  "pow2 k = 2 powr (real_of_int k)"


text \<open>
  Example inputs: a content of 300 markup tokens and no text; a content of 100 words,
  five of them \<open>Hooks\<close> and one \<open>webhooks\<close>, given as a first word and the
  separated words after it; and a post that passes every check of both analyses (a title of 45 characters, a meta description of 140 characters, 300 words
  followed by a heading, an image with alternative text and a link).
\<close>

text \<open>
  The example titles hold literal words only, so no example consults the engine; this one
  rejects every pattern.
\<close>

definition no_patterns :: regexp_engine where
  "no_patterns word text = None"



definition markup_only :: string where
  "markup_only = concat (replicate 299 ''<br> '') @ ''<br>''"

definition good_title :: string where
  "good_title = ''A practical guide to writing accessible forms''"

definition good_meta :: string where
  "good_meta = concat (replicate 7 ''search friendly text'')"

definition markup_tail :: string where
  "markup_tail = ''<h2>t</h2> <img alt=x> <a href=x>l</a>''"

definition full_content :: string where
  "full_content = concat (replicate 300 ''a '') @ markup_tail"

definition full_report :: seo_report where
  "full_report =
     SEOAnalyzer_analyzeSEO good_title full_content good_meta ''well-formed-post''
       ''/img/cover.png'' [''forms'', ''a11y'']"

section \<open>Properties of the Slug Allocator\<close>

lemma not_alnum_hyphen: "\<not> is_lower_alnum CHR ''-''"
  by (simp add: is_lower_alnum_def is_lower_def is_digit_def charCode_def)

lemma collapse_runs_chars: "list_all valid_slug_char (collapse_runs f s)"
  by (induction s arbitrary: f) (simp_all add: valid_slug_char_def)

lemma collapse_runs_shape:
  "no_double_hyphen (collapse_runs f s) \<and>
   (f \<longrightarrow> collapse_runs f s = [] \<or> hd (collapse_runs f s) \<noteq> CHR ''-'')"
proof (induction s arbitrary: f)
  case Nil
  show ?case by simp
next
  case (Cons c cs)
  show ?case
  proof (cases "is_lower_alnum c")
    case True
    moreover have "no_double_hyphen (c # collapse_runs False cs)"
      using Cons.IH [of False] True not_alnum_hyphen
      by (cases "collapse_runs False cs") auto
    ultimately show ?thesis
      using not_alnum_hyphen by auto
  next
    case False
    have "no_double_hyphen (CHR ''-'' # collapse_runs True cs)"
      using Cons.IH [of True] by (cases "collapse_runs True cs") auto
    with False Cons.IH [of True] show ?thesis
      by simp
  qed
qed

lemma no_double_hyphen_append:
  "no_double_hyphen (xs @ ys) \<Longrightarrow> no_double_hyphen xs \<and> no_double_hyphen ys"
proof (induction xs rule: no_double_hyphen.induct)
  case 1
  then show ?case by simp
next
  case (2 c)
  then show ?case by (cases ys) simp_all
next
  case (3 c d cs)
  then show ?case by simp
qed

lemma trim_hyphens_split:
  "dropWhile (\<lambda>c. c = CHR ''-'') u =
     trim_hyphens u @ rev (takeWhile (\<lambda>c. c = CHR ''-'') (rev (dropWhile (\<lambda>c. c = CHR ''-'') u)))"
proof -
  let ?P = "\<lambda>c. c = CHR ''-''"
  let ?u' = "dropWhile ?P u"
  have "trim_hyphens u @ rev (takeWhile ?P (rev ?u'))
      = rev (takeWhile ?P (rev ?u') @ dropWhile ?P (rev ?u'))"
    by (simp only: rev_append trim_hyphens_def)
  also have "\<dots> = rev (rev ?u')"
    by (simp only: takeWhile_dropWhile_id)
  also have "\<dots> = ?u'"
    by (simp only: rev_rev_ident)
  finally show ?thesis by (rule sym)
qed

lemma trim_hyphens_infix:
  "\<exists>a b. u = a @ trim_hyphens u @ b"
proof -
  let ?P = "\<lambda>c. c = CHR ''-''"
  have "u = takeWhile ?P u @ dropWhile ?P u"
    by (simp only: takeWhile_dropWhile_id)
  also have "\<dots> = takeWhile ?P u @ trim_hyphens u @ rev (takeWhile ?P (rev (dropWhile ?P u)))"
    using trim_hyphens_split [of u] by (rule arg_cong)
  finally show ?thesis by blast
qed

lemma trim_hyphens_ends:
  assumes "trim_hyphens u \<noteq> []"
  shows "hd (trim_hyphens u) \<noteq> CHR ''-''" and "last (trim_hyphens u) \<noteq> CHR ''-''"
proof -
  let ?P = "\<lambda>c. c = CHR ''-''"
  let ?u' = "dropWhile ?P u"
  let ?r = "dropWhile ?P (rev ?u')"
  from assms have r_ne: "?r \<noteq> []"
    by (simp add: trim_hyphens_def)
  then have "\<not> ?P (hd ?r)"
    by (rule hd_dropWhile)
  with r_ne show "last (trim_hyphens u) \<noteq> CHR ''-''"
    by (simp add: trim_hyphens_def last_rev)
  have u'_ne: "?u' \<noteq> []"
  proof
    assume "?u' = []"
    then have "?r = dropWhile ?P (rev [])" by (rule arg_cong)
    with r_ne show False by simp
  qed
  then have "\<not> ?P (hd ?u')"
    by (rule hd_dropWhile)
  moreover have "hd ?u' = hd (trim_hyphens u)"
    using assms by (subst trim_hyphens_split) simp
  ultimately show "hd (trim_hyphens u) \<noteq> CHR ''-''"
    by simp
qed

lemma slug_pattern_from_shape:
  "list_all valid_slug_char v \<Longrightarrow> no_double_hyphen v \<Longrightarrow> (v \<noteq> [] \<Longrightarrow> last v \<noteq> CHR ''-'') \<Longrightarrow>
   (\<not> seg \<Longrightarrow> v \<noteq> [] \<and> hd v \<noteq> CHR ''-'') \<Longrightarrow> slug_pattern_from seg v"
proof (induction v arbitrary: seg)
  case Nil
  then show ?case by auto
next
  case (Cons c cs)
  show ?case
  proof (cases "is_lower_alnum c")
    case True
    have "slug_pattern_from True cs"
    proof (rule Cons.IH)
      show "list_all valid_slug_char cs" using Cons.prems(1) by simp
      show "no_double_hyphen cs" using Cons.prems(2) by (cases cs) simp_all
      show "last cs \<noteq> CHR ''-''" if "cs \<noteq> []" using Cons.prems(3) that by simp
      show "cs \<noteq> [] \<and> hd cs \<noteq> CHR ''-''" if "\<not> True" using that by simp
    qed
    with True show ?thesis by simp
  next
    case False
    with Cons.prems(1) have c: "c = CHR ''-''"
      by (simp add: valid_slug_char_def)
    with Cons.prems(4) have seg: "seg" by auto
    from c Cons.prems(3) have ne: "cs \<noteq> []" by auto
    have "slug_pattern_from False cs"
    proof (rule Cons.IH)
      show "list_all valid_slug_char cs" using Cons.prems(1) by simp
      show "no_double_hyphen cs" using Cons.prems(2) by (cases cs) simp_all
      show "last cs \<noteq> CHR ''-''" if "cs \<noteq> []" using Cons.prems(3) that by simp
      show "cs \<noteq> [] \<and> hd cs \<noteq> CHR ''-''" if "\<not> False"
        using ne c Cons.prems(2) by (cases cs) simp_all
    qed
    with False c seg show ?thesis by simp
  qed
qed

lemma slugify_shape: "slugify t = [] \<or> matches_slug_pattern (slugify t)"
proof (cases "slugify t = []")
  case True
  then show ?thesis by simp
next
  case False
  let ?u = "collapse_runs False (toLowerCase t)"
  from trim_hyphens_infix [of ?u] obtain a b where u: "?u = a @ slugify t @ b"
    by (auto simp: slugify_def)
  have "list_all valid_slug_char ?u" by (rule collapse_runs_chars)
  with u have chars: "list_all valid_slug_char (slugify t)"
    by (metis list_all_append)
  have "no_double_hyphen ?u" using collapse_runs_shape [of False "toLowerCase t"] by simp
  with u have nd: "no_double_hyphen (slugify t)"
    by (metis no_double_hyphen_append)
  from False have ne: "trim_hyphens ?u \<noteq> []" by (simp add: slugify_def)
  have "slug_pattern_from False (slugify t)"
    using chars nd trim_hyphens_ends [OF ne] False
    by (intro slug_pattern_from_shape) (simp_all add: slugify_def)
  then show ?thesis by (simp add: matches_slug_pattern_def)
qed

lemma is_digit_digit_char: "d < 10 \<Longrightarrow> is_digit (digit_char d)"
  by (simp add: is_digit_def digit_char_def charCode_def)

lemma decimal_digits: "list_all is_digit (decimal n)"
proof (induction n rule: decimal.induct)
  case (1 n)
  show ?case
  proof (cases "n < 10")
    case True
    then show ?thesis
      by (simp add: decimal.simps [of n] is_digit_digit_char)
  next
    case False
    with "1.IH" show ?thesis
      by (simp add: decimal.simps [of n] is_digit_digit_char)
  qed
qed

lemma slug_pattern_from_alnums:
  "list_all is_lower_alnum ds \<Longrightarrow> seg \<or> ds \<noteq> [] \<Longrightarrow> slug_pattern_from seg ds"
  by (induction ds arbitrary: seg) auto

lemma slug_pattern_from_suffix:
  "slug_pattern_from seg xs \<Longrightarrow> list_all is_lower_alnum ds \<Longrightarrow> ds \<noteq> [] \<Longrightarrow>
   slug_pattern_from seg (xs @ CHR ''-'' # ds)"
proof (induction xs arbitrary: seg)
  case Nil
  then show ?case
    by (simp add: not_alnum_hyphen slug_pattern_from_alnums)
next
  case (Cons c cs)
  then show ?case
    by (auto split: if_splits)
qed

lemma matches_suffixed:
  assumes "matches_slug_pattern b"
  shows "matches_slug_pattern (suffixed b k)"
proof -
  have "list_all is_lower_alnum (decimal k)"
    using decimal_digits [of k] by (simp add: list_all_iff is_lower_alnum_def)
  with assms decimal_nonempty [of k] show ?thesis
    by (simp add: matches_slug_pattern_def suffixed_def slug_pattern_from_suffix)
qed

lemma matches_candidate: "matches_slug_pattern b \<Longrightarrow> matches_slug_pattern (candidate b k)"
  by (simp add: candidate_def matches_suffixed)

lemma suffixed_nonempty: "suffixed b k \<noteq> []"
  by (simp add: suffixed_def)

lemma suffixed_neq_base: "suffixed b k \<noteq> b"
  by (simp add: suffixed_def)

lemma findUnique_slug_None: "findUnique_slug db s = None \<longleftrightarrow> s \<notin> set (map post_slug db)"
  by (auto simp: findUnique_slug_def find_None_iff)

lemma findUnique_slug_holds: "findUnique_slug db s = Some p \<Longrightarrow> p \<in> set db \<and> post_slug p = s"
  by (auto simp: findUnique_slug_def find_Some_iff)

lemma probe_loop_break:
  "unused_or_own db postId slug \<Longrightarrow> probe_loop db postId b slug c = (slug, c)"
  by (subst probe_loop.simps) (simp add: unused_or_own_def split: option.splits)

lemma probe_loop_continue:
  "\<not> unused_or_own db postId slug \<Longrightarrow>
   probe_loop db postId b slug c = probe_loop db postId b (suffixed b c) (c + 1)"
  by (subst probe_loop.simps) (simp add: unused_or_own_def split: option.splits)

lemma probe_loop_inv:
  "1 \<le> c \<Longrightarrow> slug = candidate b (c - 1) \<Longrightarrow> probe_loop db postId b slug c = (s, n) \<Longrightarrow>
     unused_or_own db postId s
     \<and> c \<le> n \<and> s = candidate b (n - 1)
     \<and> (\<forall>k. c - 1 \<le> k \<and> k < n - 1 \<longrightarrow> (\<exists>p\<in>set db. post_slug p = candidate b k \<and> \<not> owned_by postId p))"
proof (induction db postId b slug c rule: probe_loop.induct)
  case (1 db postId baseSlug slug counter)
  show ?case
  proof (cases "unused_or_own db postId slug")
    case True
    with "1.prems"(3) have "s = slug" and "n = counter"
      by (simp_all add: probe_loop_break)
    with True "1.prems"(1,2) show ?thesis
      by auto
  next
    case False
    then obtain e where Some: "findUnique_slug db slug = Some e" and not_own: "\<not> owned_by postId e"
      by (auto simp: unused_or_own_def split: option.splits)
    from Some have e_in: "e \<in> set db" and e_slug: "post_slug e = slug"
      by (simp_all add: findUnique_slug_holds)
    from "1.prems"(1) have next_cand: "suffixed baseSlug counter = candidate baseSlug (counter + 1 - 1)"
      by (simp add: candidate_def)
    from False "1.prems"(3)
    have run: "probe_loop db postId baseSlug (suffixed baseSlug counter) (counter + 1) = (s, n)"
      by (simp add: probe_loop_continue)
    have ih: "unused_or_own db postId s
        \<and> counter + 1 \<le> n \<and> s = candidate baseSlug (n - 1)
        \<and> (\<forall>k. counter + 1 - 1 \<le> k \<and> k < n - 1 \<longrightarrow>
              (\<exists>p\<in>set db. post_slug p = candidate baseSlug k \<and> \<not> owned_by postId p))"
      by (rule "1.IH" [OF Some not_own _ next_cand run]) simp
    from ih have ok: "unused_or_own db postId s" and le: "counter + 1 \<le> n"
      and s_eq: "s = candidate baseSlug (n - 1)"
      by (rule conjunct1, rule conjunct2 [THEN conjunct1],
          rule conjunct2 [THEN conjunct2, THEN conjunct1])
    have "\<exists>p\<in>set db. post_slug p = candidate baseSlug k \<and> \<not> owned_by postId p"
      if "counter - 1 \<le> k" and "k < n - 1" for k
    proof (cases "k = counter - 1")
      case True
      with e_in e_slug not_own "1.prems"(2) show ?thesis by auto
    next
      case False
      with that have "counter + 1 - 1 \<le> k" by simp
      with ih that show ?thesis by blast
    qed
    then have "\<forall>k. counter - 1 \<le> k \<and> k < n - 1 \<longrightarrow>
        (\<exists>p\<in>set db. post_slug p = candidate baseSlug k \<and> \<not> owned_by postId p)"
      by (intro allI impI) (elim conjE)
    moreover from le have "counter \<le> n" by simp
    ultimately show ?thesis
      using ok s_eq by (intro conjI)
  qed
qed

lemma candidate_inj: "candidate b j = candidate b k \<Longrightarrow> j = k"
  by (auto simp: candidate_def suffixed_def decimal_inj split: if_splits)

lemma probes_bounded:
  assumes "\<forall>k<m. \<exists>p\<in>set db. post_slug p = candidate b k \<and> \<not> owned_by postId p"
  shows "m \<le> length (filter (\<lambda>p. post_slug p \<in> set (map (candidate b) [0..<m]) \<and> \<not> owned_by postId p) db)"
proof -
  let ?hit = "filter (\<lambda>p. post_slug p \<in> set (map (candidate b) [0..<m]) \<and> \<not> owned_by postId p) db"
  have "candidate b ` {0..<m} \<subseteq> post_slug ` set ?hit"
  proof
    fix s assume "s \<in> candidate b ` {0..<m}"
    then obtain k where k: "k < m" "s = candidate b k" by auto
    with assms obtain p where "p \<in> set db" "post_slug p = candidate b k" "\<not> owned_by postId p"
      by blast
    with k have "p \<in> set ?hit" by simp
    with \<open>post_slug p = candidate b k\<close> k(2) show "s \<in> post_slug ` set ?hit"
      by (metis imageI)
  qed
  then have "card (candidate b ` {0..<m}) \<le> card (post_slug ` set ?hit)"
    by (intro card_mono) auto
  moreover have "card (candidate b ` {0..<m}) = m"
    by (subst card_image) (auto intro: inj_onI candidate_inj)
  moreover have "card (post_slug ` set ?hit) \<le> length ?hit"
    using card_image_le [of "set ?hit" post_slug] card_length [of ?hit] by simp
  ultimately show ?thesis by linarith
qed

lemma probe_loop_result:
  assumes "probe_loop db postId baseSlug baseSlug 1 = (s, n)"
  shows "unused_or_own db postId s" and "1 \<le> n" and "s = candidate baseSlug (n - 1)"
    and "n \<le> length (filter (\<lambda>p. post_slug p \<in> set (map (candidate baseSlug) [0..<n - 1])
                                 \<and> \<not> owned_by postId p) db) + 1"
proof -
  have "baseSlug = candidate baseSlug (1 - 1)"
    by (simp add: candidate_def)
  from probe_loop_inv [OF _ this assms]
  have inv: "unused_or_own db postId s" "1 \<le> n" "s = candidate baseSlug (n - 1)"
    "\<forall>k<n - 1. \<exists>p\<in>set db. post_slug p = candidate baseSlug k \<and> \<not> owned_by postId p"
    by auto
  from inv show "unused_or_own db postId s" "1 \<le> n" "s = candidate baseSlug (n - 1)"
    by blast+
  from probes_bounded [OF inv(4)] show "n \<le> length (filter (\<lambda>p. post_slug p \<in> set (map (candidate baseSlug) [0..<n - 1])
                                 \<and> \<not> owned_by postId p) db) + 1"
    by simp
qed

text \<open>
  Claim C7. The probe loop is a total function on every table (a finite list of rows),
  so it terminates. Started as \<open>generateUniqueSlug\<close> starts it, it returns a candidate
  that no row holds or that the excluded row holds; the returned counter \<open>n\<close> is the
  number of probes made (one per iteration, the counter starting at 1 and growing by one
  after every probe but the last), the result is the candidate number \<open>n - 1\<close>, and
  \<open>n\<close> is at most one more than the number of rows that hold one of the candidates
  probed before it and are not the excluded row. Nothing else bounds the loop.
\<close>
theorem probe_loop_terminates_within_collisions:
  "case probe_loop db postId baseSlug baseSlug 1 of (s, n) \<Rightarrow>
     unused_or_own db postId s \<and> candidate baseSlug (n - 1) = s \<and> 1 \<le> n \<and>
     n \<le> length (filter (\<lambda>p. post_slug p \<in> set (map (candidate baseSlug) [0..<n - 1])
                                 \<and> \<not> owned_by postId p) db) + 1"
proof -
  obtain s n where run: "probe_loop db postId baseSlug baseSlug 1 = (s, n)"
    by (cases "probe_loop db postId baseSlug baseSlug 1")
  from probe_loop_result [OF run] run show ?thesis
    by auto
qed

theorem probe_loop_terminates_within_collisions_witness:
  "probe_loop foo_table None ''foo'' ''foo'' 1 = (''foo-3'', 4) \<and>
   unused_or_own foo_table None ''foo-3'' \<and> candidate ''foo'' (4 - 1) = ''foo-3'' \<and> (1::nat) \<le> 4 \<and>
   (4::nat) \<le> length (filter (\<lambda>p. post_slug p \<in> set (map (candidate ''foo'') [0..<4 - 1])
                                 \<and> \<not> owned_by None p) foo_table) + 1"
proof -
  have run: "probe_loop foo_table None ''foo'' ''foo'' 1 = (''foo-3'', 4)"
    by code_simp
  have "case (''foo-3'', 4::nat) of (s, n) \<Rightarrow>
     unused_or_own foo_table None s \<and> candidate ''foo'' (n - 1) = s \<and> 1 \<le> n \<and>
     n \<le> length (filter (\<lambda>p. post_slug p \<in> set (map (candidate ''foo'') [0..<n - 1])
                                 \<and> \<not> owned_by None p) foo_table) + 1"
    using probe_loop_terminates_within_collisions [of foo_table None "''foo''"]
    unfolding run .
  then have "unused_or_own foo_table None ''foo-3'' \<and> candidate ''foo'' (4 - 1) = ''foo-3'' \<and> (1::nat) \<le> 4 \<and>
   (4::nat) \<le> length (filter (\<lambda>p. post_slug p \<in> set (map (candidate ''foo'') [0..<4 - 1])
                                 \<and> \<not> owned_by None p) foo_table) + 1"
    by (simp only: prod.case)
  with run show ?thesis
    by (rule conjI)
qed

lemma generateUniqueSlug_base:
  "generateUniqueSlug db t postId = slugify t \<longleftrightarrow> unused_or_own db postId (slugify t)"
proof
  assume own: "unused_or_own db postId (slugify t)"
  then show "generateUniqueSlug db t postId = slugify t"
    by (simp add: generateUniqueSlug_def probe_loop_break)
next
  assume eq: "generateUniqueSlug db t postId = slugify t"
  show "unused_or_own db postId (slugify t)"
  proof (rule ccontr)
    assume not_own: "\<not> unused_or_own db postId (slugify t)"
    obtain s n where run: "probe_loop db postId (slugify t) (slugify t) 1 = (s, n)"
      by (cases "probe_loop db postId (slugify t) (slugify t) 1")
    from probe_loop_result(1,2,3) [OF run] have ok: "unused_or_own db postId s"
      and s_eq: "s = candidate (slugify t) (n - 1)" by simp_all
    from eq run have "s = slugify t"
      by (simp add: generateUniqueSlug_def)
    with ok not_own show False by simp
  qed
qed

lemma generateUniqueSlug_candidate:
  "\<exists>k. generateUniqueSlug db t postId = candidate (slugify t) k"
proof -
  obtain s n where run: "probe_loop db postId (slugify t) (slugify t) 1 = (s, n)"
    by (cases "probe_loop db postId (slugify t) (slugify t) 1")
  from probe_loop_result(3) [OF run] run show ?thesis
    by (auto simp: generateUniqueSlug_def)
qed

text \<open>
  Claim C2, as the code has it. The allocator has no error result. It returns the empty
  slug exactly when the title normalises to the empty string and no row other than the
  excluded one holds the empty slug; for the title \<open>!!!###\<close> and a table without such
  a row the result is the empty slug.
\<close>
theorem generateUniqueSlug_empty_iff:
  "generateUniqueSlug db t postId = [] \<longleftrightarrow> slugify t = [] \<and> unused_or_own db postId []"
proof
  assume empty: "generateUniqueSlug db t postId = []"
  from generateUniqueSlug_candidate obtain k
    where k: "generateUniqueSlug db t postId = candidate (slugify t) k" by blast
  with empty suffixed_nonempty [of "slugify t" k] have base: "slugify t = []"
    by (auto simp: candidate_def split: if_splits)
  with empty generateUniqueSlug_base [of db t postId]
  show "slugify t = [] \<and> unused_or_own db postId []"
    by simp
next
  assume "slugify t = [] \<and> unused_or_own db postId []"
  with generateUniqueSlug_base [of db t postId]
  show "generateUniqueSlug db t postId = []"
    by simp
qed

theorem generateUniqueSlug_empty_iff_witness:
  "generateUniqueSlug foo_table ''!!!###'' None = [] \<and> slugify ''!!!###'' = [] \<and> unused_or_own foo_table None []"
proof -
  have "slugify ''!!!###'' = [] \<and> unused_or_own foo_table None []"
    by code_simp
  with generateUniqueSlug_empty_iff [of foo_table "''!!!###''" None]
  show ?thesis by (simp only: simp_thms)
qed

theorem generateUniqueSlug_empty_counterexample:
  "slugify ''!!!###'' = [] \<and> generateUniqueSlug [] ''!!!###'' None = []"
  by code_simp

text \<open>
  Claim C3, as the code has it. For every title whose normalisation is not empty the
  allocator's result matches \<open>^[a-z0-9]+(-[a-z0-9]+)*$\<close>, and the title
  \<open>Hello, World! 2024\<close> normalises to \<open>hello-world-2024\<close>. For a title that
  normalises to the empty string the result does not match the pattern.
\<close>
theorem generateUniqueSlug_pattern:
  "(slugify t \<noteq> [] \<longrightarrow> matches_slug_pattern (generateUniqueSlug db t postId))
   \<and> slugify ''Hello, World! 2024'' = ''hello-world-2024''"
proof
  show "slugify t \<noteq> [] \<longrightarrow> matches_slug_pattern (generateUniqueSlug db t postId)"
  proof
    assume "slugify t \<noteq> []"
    with slugify_shape [of t] have "matches_slug_pattern (slugify t)" by simp
    then have "matches_slug_pattern (candidate (slugify t) k)" for k
      by (rule matches_candidate)
    with generateUniqueSlug_candidate [of db t postId]
    show "matches_slug_pattern (generateUniqueSlug db t postId)"
      by auto
  qed
  show "slugify ''Hello, World! 2024'' = ''hello-world-2024''"
    by code_simp
qed

theorem generateUniqueSlug_pattern_witness:
  "slugify ''Hello, World! 2024'' \<noteq> [] \<and>
   matches_slug_pattern (generateUniqueSlug foo_table ''Hello, World! 2024'' None)"
proof -
  have ne: "slugify ''Hello, World! 2024'' \<noteq> []"
    by code_simp
  from generateUniqueSlug_pattern [of "''Hello, World! 2024''" foo_table None]
  have "slugify ''Hello, World! 2024'' \<noteq> [] \<longrightarrow>
      matches_slug_pattern (generateUniqueSlug foo_table ''Hello, World! 2024'' None)"
    by (rule conjunct1)
  with ne show ?thesis by simp
qed

theorem generateUniqueSlug_pattern_counterexample:
  "\<not> matches_slug_pattern (generateUniqueSlug [] ''!!!###'' None)"
  by code_simp

lemma slugify_Foo: "slugify ''Foo'' = ''foo''"
  by code_simp

lemma foo_suffixes:
  "suffixed ''foo'' 1 = ''foo-1''" "suffixed ''foo'' 2 = ''foo-2''" "suffixed ''foo'' 3 = ''foo-3''"
  by code_simp+

lemma unused_or_own_None: "unused_or_own db None s \<longleftrightarrow> s \<notin> set (map post_slug db)"
proof (cases "findUnique_slug db s")
  case None
  with findUnique_slug_None [of db s] show ?thesis
    by (simp add: unused_or_own_def)
next
  case (Some p)
  then have "s \<in> set (map post_slug db)"
    by (rule findUnique_slug_Some)
  with Some show ?thesis
    by (simp add: unused_or_own_def owned_by_def)
qed

text \<open>
  Claim C5. If the slugs held by the rows are exactly \<open>foo\<close>, \<open>foo-1\<close> and
  \<open>foo-2\<close>, allocating for the title \<open>Foo\<close> without an exclude identifier returns
  \<open>foo-3\<close>.
\<close>
theorem generateUniqueSlug_third_suffix:
  assumes "set (map post_slug db) = {''foo'', ''foo-1'', ''foo-2''}"
  shows "generateUniqueSlug db ''Foo'' None = ''foo-3''"
proof -
  from assms have taken: "\<not> unused_or_own db None ''foo''" "\<not> unused_or_own db None ''foo-1''"
    "\<not> unused_or_own db None ''foo-2''" and free: "unused_or_own db None ''foo-3''"
    by (simp_all add: unused_or_own_None del: set_map)
  have "probe_loop db None ''foo'' ''foo'' 1 = probe_loop db None ''foo'' ''foo-1'' 2"
    by (subst probe_loop_continue [OF taken(1)]) (simp only: foo_suffixes one_add_one; simp)
  also have "\<dots> = probe_loop db None ''foo'' ''foo-2'' 3"
    by (subst probe_loop_continue [OF taken(2)]) (simp only: foo_suffixes one_add_one; simp)
  also have "\<dots> = probe_loop db None ''foo'' ''foo-3'' 4"
    by (subst probe_loop_continue [OF taken(3)]) (simp only: foo_suffixes one_add_one; simp)
  also have "\<dots> = (''foo-3'', 4)"
    using free by (rule probe_loop_break)
  finally show ?thesis
    by (simp add: generateUniqueSlug_def slugify_Foo)
qed

theorem generateUniqueSlug_third_suffix_witness:
  "set (map post_slug foo_table) = {''foo'', ''foo-1'', ''foo-2''} \<and>
   generateUniqueSlug foo_table ''Foo'' None = ''foo-3''"
proof -
  have h: "set (map post_slug foo_table) = {''foo'', ''foo-1'', ''foo-2''}"
    by (simp add: foo_table_def mk_post_def)
  from h generateUniqueSlug_third_suffix [OF h] show ?thesis
    by (rule conjI)
qed

text \<open>
  Claim C6. If the row that holds the slug \<open>foo\<close> has the key \<open>X\<close> (a key is a
  non-empty string), allocating for the title \<open>Foo\<close> with exclude identifier \<open>X\<close>
  returns \<open>foo\<close> itself.
\<close>
theorem generateUniqueSlug_self_exclusion:
  assumes "findUnique_slug db ''foo'' = Some p" and "post_id p = X" and "X \<noteq> []"
  shows "generateUniqueSlug db ''Foo'' (Some X) = ''foo''"
proof -
  from assms have "unused_or_own db (Some X) (slugify ''Foo'')"
    by (simp add: unused_or_own_def owned_by_def slugify_Foo)
  with generateUniqueSlug_base [of db "''Foo''" "Some X"] show ?thesis
    by (simp add: slugify_Foo)
qed

theorem generateUniqueSlug_self_exclusion_witness:
  "findUnique_slug foo_table ''foo'' = Some (mk_post ''p1'' ''Foo'' ''foo'') \<and>
   post_id (mk_post ''p1'' ''Foo'' ''foo'') = ''p1'' \<and> ''p1'' \<noteq> [] \<and>
   generateUniqueSlug foo_table ''Foo'' (Some ''p1'') = ''foo''"
proof -
  have a: "findUnique_slug foo_table ''foo'' = Some (mk_post ''p1'' ''Foo'' ''foo'')"
    by (simp add: findUnique_slug_def foo_table_def mk_post_def)
  have b: "post_id (mk_post ''p1'' ''Foo'' ''foo'') = ''p1''"
    by (simp add: mk_post_def)
  have c: "''p1'' \<noteq> []" by simp
  from a b c generateUniqueSlug_self_exclusion [OF a b c] show ?thesis
    by (intro conjI)
qed

lemma findUnique_id_update:
  assumes "findUnique_id db i = Some p" and "\<And>q. post_id (f q) = post_id q"
  shows "findUnique_id (update_where_id db i f) i = Some (f p)"
  using assms(1)
proof (induction db)
  case Nil
  then show ?case by (simp add: findUnique_id_def)
next
  case (Cons q qs)
  then show ?case
    by (cases "post_id q = i") (simp_all add: findUnique_id_def assms(2))
qed

lemma slugs_update:
  assumes "findUnique_id db i = Some p" and "post_slug (f p) = post_slug p"
  shows "map post_slug (update_where_id db i f) = map post_slug db"
  using assms(1)
proof (induction db)
  case Nil
  then show ?case by simp
next
  case (Cons q qs)
  then show ?case
    by (cases "post_id q = i") (simp_all add: findUnique_id_def assms(2))
qed

text \<open>
  Claim C8. After a successful update of the post with key \<open>i\<close> the row's slug is
  its old slug when the submitted title equals the stored title, and the newly allocated
  slug (with \<open>i\<close> excluded) only when the title differs; with an unchanged title the
  slug column of the whole table is unchanged.
\<close>
theorem put_post_slug_unchanged:
  assumes "put_post db req_user i b = Inr db'" and "findUnique_id db i = Some p"
  shows "(\<exists>p'. findUnique_id db' i = Some p' \<and>
            post_slug p' = (if body_title b = post_title p then post_slug p
                            else generateUniqueSlug db (body_title b) (Some i)))
       \<and> (body_title b = post_title p \<longrightarrow> map post_slug db' = map post_slug db)"
proof -
  let ?slug = "if body_title b \<noteq> post_title p
               then generateUniqueSlug db (body_title b) (Some i) else post_slug p"
  let ?f = "\<lambda>q. q\<lparr>post_title := body_title b, post_slug := ?slug, post_content := body_content b\<rparr>"
  from assms have db': "db' = update_where_id db i ?f"
    by (simp add: put_post_def Let_def split: if_splits)
  have "findUnique_id db' i = Some (?f p)"
    unfolding db' using assms(2) by (rule findUnique_id_update) simp
  then have first: "\<exists>p'. findUnique_id db' i = Some p' \<and>
            post_slug p' = (if body_title b = post_title p then post_slug p
                            else generateUniqueSlug db (body_title b) (Some i))"
    by simp
  have second: "map post_slug db' = map post_slug db" if "body_title b = post_title p"
    unfolding db' using assms(2) by (rule slugs_update) (simp add: that)
  from first second show ?thesis
    by blast
qed

theorem put_post_slug_unchanged_witness:
  "put_post foo_table author_u1 ''p1'' same_title_body =
     Inr (mk_post ''p1'' ''Foo'' ''foo'' \<lparr>post_content := ''Revised body''\<rparr> # tl foo_table) \<and>
   findUnique_id foo_table ''p1'' = Some (mk_post ''p1'' ''Foo'' ''foo'') \<and>
   body_title same_title_body = post_title (mk_post ''p1'' ''Foo'' ''foo'') \<and>
   map post_slug (mk_post ''p1'' ''Foo'' ''foo'' \<lparr>post_content := ''Revised body''\<rparr> # tl foo_table)
     = map post_slug foo_table"
proof -
  have run: "put_post foo_table author_u1 ''p1'' same_title_body =
     Inr (mk_post ''p1'' ''Foo'' ''foo'' \<lparr>post_content := ''Revised body''\<rparr> # tl foo_table)"
    by (simp add: put_post_def postValidation_def findUnique_id_def foo_table_def mk_post_def
        author_u1_def same_title_body_def)
  have row: "findUnique_id foo_table ''p1'' = Some (mk_post ''p1'' ''Foo'' ''foo'')"
    by (simp add: findUnique_id_def foo_table_def mk_post_def)
  have same: "body_title same_title_body = post_title (mk_post ''p1'' ''Foo'' ''foo'')"
    by (simp add: same_title_body_def mk_post_def)
  from put_post_slug_unchanged [OF run row] same
  have "map post_slug (mk_post ''p1'' ''Foo'' ''foo'' \<lparr>post_content := ''Revised body''\<rparr> # tl foo_table)
     = map post_slug foo_table"
    by blast
  with run row same show ?thesis
    by (intro conjI)
qed

section \<open>Properties of the Content Scorer\<close>

lemma score_steps [simp]:
  "score (set_check key st msg a) = score a"
  "score (push_issue m a) = score a"
  "score (push_suggestion m a) = score a"
  "score (add_score n a) = score a + n"
  by (simp_all add: set_check_def push_issue_def push_suggestion_def add_score_def)

lemma checks_steps [simp]:
  "checks (set_check key st msg a) =
     AList.update key \<lparr>check_status = st, check_message = msg\<rparr> (checks a)"
  "checks (push_issue m a) = checks a"
  "checks (push_suggestion m a) = checks a"
  "checks (add_score n a) = checks a"
  by (simp_all add: set_check_def push_issue_def push_suggestion_def add_score_def)

lemma title_analysis_score: "score (title_analysis t a) \<le> score a + 20"
  by (simp add: title_analysis_def)

lemma meta_analysis_score: "score (meta_analysis m a) \<le> score a + 20"
  by (simp add: meta_analysis_def)

lemma slug_analysis_score: "score (slug_analysis s a) \<le> score a + 15"
  by (simp add: slug_analysis_def)

lemma wordCount_check_score: "score (wordCount_check n a) \<le> score a + 15"
  by (simp add: wordCount_check_def)

lemma headings_check_score: "score (headings_check hs a) \<le> score a + 10"
  by (simp add: headings_check_def)

lemma images_check_score: "score (images_check is a) \<le> score a + 10"
  by (simp add: images_check_def Let_def)

lemma links_check_score: "score (links_check ls a) \<le> score a + 5"
  by (simp add: links_check_def)

lemma content_analysis_score: "score (content_analysis c a) \<le> score a + 40"
proof (cases "length c = 0")
  case True
  then show ?thesis by (simp add: content_analysis_def)
next
  case False
  let ?a1 = "wordCount_check (length (split_ws c)) a"
  let ?a2 = "headings_check (match_tags heading_pattern c) ?a1"
  let ?a3 = "images_check (match_tags image_pattern c) ?a2"
  let ?a4 = "links_check (match_tags link_pattern c) ?a3"
  have "score ?a4 \<le> score ?a3 + 5" by (rule links_check_score)
  also have "score ?a3 \<le> score ?a2 + 10" by (rule images_check_score)
  also have "score ?a2 \<le> score ?a1 + 10" by (rule headings_check_score)
  also have "score ?a1 \<le> score a + 15" by (rule wordCount_check_score)
  finally have "score ?a4 \<le> score a + 40" by simp
  with False show ?thesis
    by (simp add: content_analysis_def Let_def)
qed

lemma seo_checks_score: "score (seo_checks c t m s) \<le> 95"
proof -
  let ?a1 = "title_analysis t initial_analysis"
  let ?a2 = "meta_analysis m ?a1"
  let ?a3 = "slug_analysis s ?a2"
  have "score (content_analysis c ?a3) \<le> score ?a3 + 40" by (rule content_analysis_score)
  also have "score ?a3 \<le> score ?a2 + 15" by (rule slug_analysis_score)
  also have "score ?a2 \<le> score ?a1 + 20" by (rule meta_analysis_score)
  also have "score ?a1 \<le> score initial_analysis + 20" by (rule title_analysis_score)
  finally show ?thesis
    by (simp add: seo_checks_def initial_analysis_def)
qed

lemma analyzeSEO_Some:
  assumes "analyzeSEO engine c t m s = Some a"
  shows "score a = min 100 (score (seo_checks c t m s))"
    and "checks a = checks (seo_checks c t m s)"
    and "issues a = issues (seo_checks c t m s)"
    and "suggestions a = suggestions (seo_checks c t m s)"
  using assms
  by (auto simp: analyzeSEO_def keyword_analysis_def final_score_def Let_def
      split: if_splits option.splits)

lemma keyword_densities_total:
  "list_all (\<lambda>w. length w > 3 \<longrightarrow> regex_literal w) ws \<Longrightarrow>
   \<exists>kd'. keyword_densities engine ws cl c kd = Some kd'"
  by (induction ws arbitrary: kd) (auto simp: Let_def match_count_def)

lemma analyzeSEO_total:
  assumes "list_all (\<lambda>w. length w > 3 \<longrightarrow> regex_literal w) (split_ws (toLowerCase t))"
  shows "\<exists>a. analyzeSEO engine c t m s = Some a"
proof (cases "t \<noteq> [] \<and> c \<noteq> []")
  case True
  from keyword_densities_total [OF assms, of engine "toLowerCase c" c "[]"]
  obtain kd where "keyword_densities engine (split_ws (toLowerCase t)) (toLowerCase c) c [] = Some kd"
    by blast
  with True show ?thesis
    by (simp add: analyzeSEO_def keyword_analysis_def)
next
  case False
  then show ?thesis
    by (auto simp: analyzeSEO_def keyword_analysis_def)
qed

text \<open>
  Claim C10. For every input the points of the server-side \<open>analyzeSEO\<close> add up to
  at most 20 + 20 + 15 + 15 + 10 + 10 + 5 = 95. Whenever the function returns a report,
  its score is that sum (the cap \<open>min(100, score)\<close> never changes it), so it lies
  between 0 and 95 and is never 100.
\<close>
theorem analyzeSEO_score_at_most_95:
  "score (seo_checks content title metaDescription slug) \<le> 95 \<and>
   (\<forall>a. analyzeSEO engine content title metaDescription slug = Some a \<longrightarrow>
      score a = score (seo_checks content title metaDescription slug) \<and> score a \<le> 95 \<and> score a \<noteq> 100)"
proof -
  have bound: "score (seo_checks content title metaDescription slug) \<le> 95"
    by (rule seo_checks_score)
  have "score a = score (seo_checks content title metaDescription slug) \<and> score a \<le> 95 \<and> score a \<noteq> 100"
    if "analyzeSEO engine content title metaDescription slug = Some a" for a
    using analyzeSEO_Some(1) [OF that] bound by simp
  with bound show ?thesis by blast
qed

theorem analyzeSEO_score_at_most_95_witness:
  "map_option score (analyzeSEO no_patterns ''<h1>Hi</h1> <a href=x>y</a>'' ''Short title'' [] ''ok'') = Some 30 \<and>
   score (seo_checks ''<h1>Hi</h1> <a href=x>y</a>'' ''Short title'' [] ''ok'') = 30"
proof -
  have run: "map_option score (analyzeSEO no_patterns ''<h1>Hi</h1> <a href=x>y</a>'' ''Short title'' [] ''ok'') = Some 30"
    by code_simp
  then obtain a where a: "analyzeSEO no_patterns ''<h1>Hi</h1> <a href=x>y</a>'' ''Short title'' [] ''ok'' = Some a"
    and score: "score a = 30"
    by auto
  from analyzeSEO_score_at_most_95 [of "''<h1>Hi</h1> <a href=x>y</a>''" "''Short title''" "[]" "''ok''" no_patterns] a
  have "score a = score (seo_checks ''<h1>Hi</h1> <a href=x>y</a>'' ''Short title'' [] ''ok'')"
    by blast
  with score have "score (seo_checks ''<h1>Hi</h1> <a href=x>y</a>'' ''Short title'' [] ''ok'') = 30"
    by simp
  with run show ?thesis
    by (rule conjI)
qed

lemma split_ws_from_nonempty: "split_ws_from f s \<noteq> []"
  by (induction s arbitrary: f) (auto split: list.splits)

lemma split_ws_from_word:
  "w \<noteq> [] \<Longrightarrow> list_all (\<lambda>c. \<not> is_whitespace c) w \<Longrightarrow> is_whitespace sep \<Longrightarrow>
   split_ws_from f (w @ sep # s) = w # split_ws_from True s"
proof (induction w arbitrary: f)
  case Nil
  then show ?case by simp
next
  case (Cons c w)
  show ?case
  proof (cases "w = []")
    case True
    with Cons.prems show ?thesis by simp
  next
    case False
    with Cons.prems have "split_ws_from False (w @ sep # s) = w # split_ws_from True s"
      by (intro Cons.IH) simp_all
    with Cons.prems show ?thesis by simp
  qed
qed

lemma split_ws_from_words:
  assumes "w \<noteq> []" and "list_all (\<lambda>c. \<not> is_whitespace c) w" and "is_whitespace sep"
  shows "split_ws_from True (concat (replicate n (w @ [sep])) @ s) = replicate n w @ split_ws_from True s"
proof (induction n)
  case 0
  show ?case by simp
next
  case (Suc n)
  have "split_ws_from True (concat (replicate (Suc n) (w @ [sep])) @ s)
      = split_ws_from True (w @ sep # (concat (replicate n (w @ [sep])) @ s))"
    by simp
  also have "\<dots> = w # split_ws_from True (concat (replicate n (w @ [sep])) @ s)"
    using assms by (rule split_ws_from_word)
  finally show ?case
    using Suc by simp
qed

lemma split_ws_words:
  assumes "w \<noteq> []" and "list_all (\<lambda>c. \<not> is_whitespace c) w" and "is_whitespace sep" and "0 < n"
  shows "split_ws (concat (replicate n (w @ [sep])) @ s) = replicate n w @ split_ws_from True s"
proof -
  from assms(4) obtain k where n: "n = Suc k"
    by (cases n) simp_all
  have "split_ws (concat (replicate n (w @ [sep])) @ s)
      = split_ws_from False (w @ sep # (concat (replicate k (w @ [sep])) @ s))"
    by (simp add: n split_ws_def)
  also have "\<dots> = w # split_ws_from True (concat (replicate k (w @ [sep])) @ s)"
    using assms(1-3) by (rule split_ws_from_word)
  also have "\<dots> = w # replicate k w @ split_ws_from True s"
    using assms(1-3) by (simp add: split_ws_from_words)
  finally show ?thesis
    by (simp add: n)
qed

lemma split_ws_from_blank:
  "list_all is_whitespace s \<Longrightarrow> list_all (\<lambda>w. w = []) (split_ws_from f s)"
  by (induction s arbitrary: f) simp_all

lemma tag_at_mismatch: "\<not> P c \<Longrightarrow> tag_at (P # Ps) (c # s) = None"
  by (simp add: tag_at_def)

lemma match_tags_skip:
  "list_all (\<lambda>c. \<not> P c) w \<Longrightarrow> match_tags (P # Ps) (w @ s) = match_tags (P # Ps) s"
proof (induction w)
  case Nil
  show ?case by simp
next
  case (Cons c w)
  then have "match_tags (P # Ps) ((c # w) @ s) = match_tags (P # Ps) (w @ s)"
    by (subst match_tags.simps) (simp add: tag_at_mismatch)
  with Cons show ?case by simp
qed

lemma strip_tags_skip:
  "list_all (\<lambda>c. c \<noteq> CHR ''<'') w \<Longrightarrow> strip_tags (w @ s) = w @ strip_tags s"
proof (induction w)
  case Nil
  show ?case by simp
next
  case (Cons c w)
  then have "strip_tags ((c # w) @ s) = c # strip_tags (w @ s)"
    by (subst strip_tags.simps) (simp add: tag_at_mismatch)
  with Cons show ?case by simp
qed



lemma toLowerCase_append: "toLowerCase (a @ b) = toLowerCase a @ toLowerCase b"
  by (simp add: toLowerCase_def)

lemma toLowerCase_fixed: "list_all (\<lambda>c. toLowerCase_char c = c) w \<Longrightarrow> toLowerCase w = w"
  by (induction w) (simp_all add: toLowerCase_def)

lemma list_all_concat_replicate: "list_all P u \<Longrightarrow> list_all P (concat (replicate n u))"
  by (induction n) simp_all

lemma is_whitespace_space: "is_whitespace CHR '' ''"
  by (simp add: is_whitespace_def charCode_def)

lemma upto_gt_body:
  "list_all (\<lambda>c. c \<noteq> CHR ''>'') body \<Longrightarrow> upto_gt (body @ CHR ''>'' # s) = Some (body @ ''>'', s)"
  by (induction body) simp_all

lemma strip_tags_tag:
  assumes "list_all (\<lambda>c. c \<noteq> CHR ''>'') body"
  shows "strip_tags (CHR ''<'' # body @ CHR ''>'' # s) = strip_tags s"
  by (subst strip_tags.simps) (simp add: tag_at_def upto_gt_body [OF assms])

lemma strip_tags_br: "strip_tags (concat (replicate n ''<br> '') @ s) = replicate n CHR '' '' @ strip_tags s"
proof (induction n)
  case 0
  show ?case by simp
next
  case (Suc n)
  have "strip_tags (concat (replicate (Suc n) ''<br> '') @ s)
      = strip_tags (CHR ''<'' # ''br'' @ CHR ''>'' # (CHR '' '' # concat (replicate n ''<br> '') @ s))"
    by simp
  also have "\<dots> = strip_tags (CHR '' '' # concat (replicate n ''<br> '') @ s)"
    by (rule strip_tags_tag) simp
  also have "\<dots> = CHR '' '' # strip_tags (concat (replicate n ''<br> '') @ s)"
    using strip_tags_skip [of "'' ''" "concat (replicate n ''<br> '') @ s"] by simp
  finally show ?case
    using Suc by simp
qed

lemma plain_words_markup_only: "plain_words markup_only = []"
proof -
  have "strip_tags ''<br>'' = []"
    by code_simp
  then have "strip_tags markup_only = replicate 299 CHR '' ''"
    by (simp add: markup_only_def strip_tags_br)
  moreover have "list_all is_whitespace (replicate 299 CHR '' '')"
    by (simp add: list_all_iff is_whitespace_space)
  ultimately have "list_all (\<lambda>w. w = []) (split_ws (strip_tags markup_only))"
    by (simp add: split_ws_def split_ws_from_blank)
  then show ?thesis
    by (simp add: plain_words_def list_all_iff filter_empty_conv)
qed

lemma split_ws_markup_only: "length (split_ws markup_only) = 300"
proof -
  have tail: "split_ws_from True ''<br>'' = [''<br>'']"
    by code_simp
  have word: "list_all (\<lambda>c. \<not> is_whitespace c) ''<br>''"
    by code_simp
  have "split_ws (concat (replicate 299 (''<br>'' @ [CHR '' ''])) @ ''<br>'')
      = replicate 299 ''<br>'' @ split_ws_from True ''<br>''"
  proof (rule split_ws_words)
    show "''<br>'' \<noteq> []" by simp
    show "list_all (\<lambda>c. \<not> is_whitespace c) ''<br>''" by (rule word)
    show "is_whitespace CHR '' ''" by (rule is_whitespace_space)
    show "(0::nat) < 299" by simp
  qed
  then have "split_ws markup_only = replicate 299 ''<br>'' @ [''<br>'']"
    by (simp only: markup_only_def tail append.simps)
  then show ?thesis
    by simp
qed

lemma map_of_links_check:
  "k \<noteq> ''links'' \<Longrightarrow> map_of (checks (links_check ls a)) k = map_of (checks a) k"
  by (simp add: links_check_def update_conv')

lemma map_of_images_check:
  "k \<noteq> ''images'' \<Longrightarrow> map_of (checks (images_check imgs a)) k = map_of (checks a) k"
  by (simp add: images_check_def Let_def update_conv')

lemma map_of_headings_check:
  "k \<noteq> ''headings'' \<Longrightarrow> map_of (checks (headings_check hs a)) k = map_of (checks a) k"
  by (simp add: headings_check_def update_conv')

lemma map_of_wordCount_check:
  "map_of (checks (wordCount_check n a)) ''wordCount'' =
     Some (if n < 300
           then \<lparr>check_status = ''warning'',
                 check_message = ''Content has '' @ decimal n @ '' words (recommended: 300+)''\<rparr>
           else \<lparr>check_status = ''success'',
                 check_message = ''Content has '' @ decimal n @ '' words''\<rparr>)"
  by (simp add: wordCount_check_def update_conv')

lemma wordCount_entry_seo_checks:
  assumes "c \<noteq> []"
  shows "wordCount_entry (seo_checks c t m s) =
     Some (if length (split_ws c) < 300
           then \<lparr>check_status = ''warning'',
                 check_message = ''Content has '' @ decimal (length (split_ws c)) @ '' words (recommended: 300+)''\<rparr>
           else \<lparr>check_status = ''success'',
                 check_message = ''Content has '' @ decimal (length (split_ws c)) @ '' words''\<rparr>)"
proof -
  let ?a = "slug_analysis s (meta_analysis m (title_analysis t initial_analysis))"
  let ?w = "wordCount_check (length (split_ws c)) ?a"
  let ?h = "headings_check (match_tags heading_pattern c) ?w"
  let ?i = "images_check (match_tags image_pattern c) ?h"
  let ?l = "links_check (match_tags link_pattern c) ?i"
  from assms have "seo_checks c t m s = ?l"
    by (simp add: seo_checks_def content_analysis_def Let_def)
  then have "wordCount_entry (seo_checks c t m s) = map_of (checks ?l) ''wordCount''"
    by (simp only: wordCount_entry_def)
  also have "\<dots> = map_of (checks ?i) ''wordCount''"
    by (rule map_of_links_check) simp
  also have "\<dots> = map_of (checks ?h) ''wordCount''"
    by (rule map_of_images_check) simp
  also have "\<dots> = map_of (checks ?w) ''wordCount''"
    by (rule map_of_headings_check) simp
  finally show ?thesis
    by (simp only: map_of_wordCount_check)
qed

lemma line_breaks_title: 
  "list_all (\<lambda>w. length w > 3 \<longrightarrow> regex_literal w) (split_ws (toLowerCase ''Line breaks only''))"
  by code_simp

text \<open>
  Claim C4, on the server side. For a content of 300 \<open><br>\<close> tags separated by
  spaces the stripped text has no word at all, yet the server-side word-count check
  counts the 300 markup tokens and reports success with the message
  \<open>Content has 300 words\<close>.
\<close>
theorem analyzeSEO_counts_markup_as_words:
  "length (plain_words markup_only) = 0 \<and> length (split_ws markup_only) = 300 \<and>
   map_option wordCount_entry (analyzeSEO engine markup_only ''Line breaks only'' [] []) =
     Some (Some \<lparr>check_status = ''success'', check_message = ''Content has 300 words''\<rparr>)"
proof -
  from analyzeSEO_total [OF line_breaks_title] obtain a
    where a: "analyzeSEO engine markup_only ''Line breaks only'' [] [] = Some a"
    by blast
  have ne: "markup_only \<noteq> []"
    by (simp add: markup_only_def)
  have "decimal 300 = ''300''"
    by code_simp
  with analyzeSEO_Some(2) [OF a] wordCount_entry_seo_checks [OF ne, of "''Line breaks only''" "[]" "[]"]
  have "wordCount_entry a = Some \<lparr>check_status = ''success'', check_message = ''Content has 300 words''\<rparr>"
    by (simp add: wordCount_entry_def split_ws_markup_only)
  with a show ?thesis
    by (simp add: plain_words_markup_only split_ws_markup_only)
qed

lemma update_fresh: "k \<notin> set (map fst al) \<Longrightarrow> AList.update k v al = al @ [(k, v)]"
  by (induction al) auto

lemma check_keys_steps [simp]:
  "check_keys (set_check key st msg a) = insert key (check_keys a)"
  "check_keys (push_issue m a) = check_keys a"
  "check_keys (push_suggestion m a) = check_keys a"
  "check_keys (add_score n a) = check_keys a"
  by (auto simp: check_keys_def update_keys)

lemma tallied_fail:
  assumes "tallied a" and "key \<notin> check_keys a" and "st \<noteq> ''success''"
    and "score a' = score a" and "checks a' = checks a"
  shows "tallied (set_check key st msg a')"
  using assms by (simp add: tallied_def check_keys_def update_fresh awarded_def)

lemma tallied_success:
  assumes "tallied a" and "key \<notin> check_keys a" and "check_weight key = n"
  shows "tallied (set_check key ''success'' msg (add_score n a))"
  using assms by (simp add: tallied_def check_keys_def update_fresh awarded_def)

lemma title_analysis_tallied:
  assumes "tallied a" and "''title'' \<notin> check_keys a"
  shows "tallied (title_analysis t a)" and "check_keys (title_analysis t a) = insert ''title'' (check_keys a)"
  using assms
  by (auto simp: title_analysis_def check_weight_def intro!: tallied_fail tallied_success)

lemma meta_analysis_tallied:
  assumes "tallied a" and "''metaDescription'' \<notin> check_keys a"
  shows "tallied (meta_analysis m a)"
    and "check_keys (meta_analysis m a) = insert ''metaDescription'' (check_keys a)"
  using assms
  by (auto simp: meta_analysis_def check_weight_def intro!: tallied_fail tallied_success)

lemma slug_analysis_tallied:
  assumes "tallied a" and "''slug'' \<notin> check_keys a"
  shows "tallied (slug_analysis s a)" and "check_keys (slug_analysis s a) = insert ''slug'' (check_keys a)"
  using assms
  by (auto simp: slug_analysis_def check_weight_def intro!: tallied_fail tallied_success)

lemma wordCount_check_tallied:
  assumes "tallied a" and "''wordCount'' \<notin> check_keys a"
  shows "tallied (wordCount_check n a)"
    and "check_keys (wordCount_check n a) = insert ''wordCount'' (check_keys a)"
  using assms
  by (auto simp: wordCount_check_def check_weight_def intro!: tallied_fail tallied_success)

lemma headings_check_tallied:
  assumes "tallied a" and "''headings'' \<notin> check_keys a"
  shows "tallied (headings_check hs a)"
    and "check_keys (headings_check hs a) = insert ''headings'' (check_keys a)"
  using assms
  by (auto simp: headings_check_def check_weight_def intro!: tallied_fail tallied_success)

lemma images_check_tallied:
  assumes "tallied a" and "''images'' \<notin> check_keys a"
  shows "tallied (images_check imgs a)"
    and "check_keys (images_check imgs a) \<subseteq> insert ''images'' (check_keys a)"
  using assms
  by (auto simp: images_check_def Let_def check_weight_def intro!: tallied_fail tallied_success)

lemma links_check_tallied:
  assumes "tallied a" and "''links'' \<notin> check_keys a"
  shows "tallied (links_check ls a)"
  using assms
  by (auto simp: links_check_def check_weight_def intro!: tallied_fail tallied_success)

lemma content_analysis_tallied:
  assumes "tallied a" and "check_keys a \<subseteq> {''title'', ''metaDescription'', ''slug''}"
  shows "tallied (content_analysis c a)"
proof (cases "length c = 0")
  case True
  from assms(2) have "''content'' \<notin> check_keys a" by auto
  with True assms(1) show ?thesis
    by (auto simp: content_analysis_def intro!: tallied_fail)
next
  case False
  let ?w = "wordCount_check (length (split_ws c)) a"
  let ?h = "headings_check (match_tags heading_pattern c) ?w"
  let ?i = "images_check (match_tags image_pattern c) ?h"
  from assms(2) have fresh_w: "''wordCount'' \<notin> check_keys a" by auto
  note w = wordCount_check_tallied [OF assms(1) fresh_w, of "length (split_ws c)"]
  from assms(2) w(2) have fresh_h: "''headings'' \<notin> check_keys ?w" by auto
  note h = headings_check_tallied [OF w(1) fresh_h, of "match_tags heading_pattern c"]
  from assms(2) w(2) h(2) have fresh_i: "''images'' \<notin> check_keys ?h" by auto
  note i = images_check_tallied [OF h(1) fresh_i, of "match_tags image_pattern c"]
  from assms(2) w(2) h(2) i(2) have fresh_l: "''links'' \<notin> check_keys ?i" by auto
  from links_check_tallied [OF i(1) fresh_l] False show ?thesis
    by (simp add: content_analysis_def Let_def)
qed

lemma seo_checks_tallied: "tallied (seo_checks c t m s)"
proof -
  let ?t = "title_analysis t initial_analysis"
  let ?m = "meta_analysis m ?t"
  let ?s = "slug_analysis s ?m"
  have init: "tallied initial_analysis" "check_keys initial_analysis = {}"
    by (simp_all add: tallied_def check_keys_def initial_analysis_def)
  from init have fresh_t: "''title'' \<notin> check_keys initial_analysis" by simp
  note t = title_analysis_tallied [OF init(1) fresh_t, of t]
  from t(2) init(2) have fresh_m: "''metaDescription'' \<notin> check_keys ?t" by simp
  note m = meta_analysis_tallied [OF t(1) fresh_m, of m]
  from m(2) t(2) init(2) have fresh_s: "''slug'' \<notin> check_keys ?m" by simp
  note s = slug_analysis_tallied [OF m(1) fresh_s, of s]
  from s(2) m(2) t(2) init(2) have "check_keys ?s \<subseteq> {''title'', ''metaDescription'', ''slug''}"
    by auto
  with s(1) show ?thesis
    unfolding seo_checks_def by (rule content_analysis_tallied)
qed

lemma good_title_length: "length good_title = 45"
  by (simp add: good_title_def)

lemma length_concat_replicate: "length (concat (replicate n u)) = n * length u"
  by (induction n) simp_all

lemma good_meta_length: "length good_meta = 140"
  by (simp add: good_meta_def length_concat_replicate)

lemma good_title_literal:
  "list_all (\<lambda>w. length w > 3 \<longrightarrow> regex_literal w) (split_ws (toLowerCase good_title))"
  unfolding good_title_def by code_simp

lemma good_slug: "slug_chars_only ''well-formed-post''"
  by code_simp

lemma full_content_nonempty: "full_content \<noteq> []"
  by (simp add: full_content_def markup_tail_def)

lemma full_content_words: "split_ws full_content = replicate 300 ''a'' @ split_ws_from True markup_tail"
proof -
  have word: "list_all (\<lambda>c. \<not> is_whitespace c) ''a''"
    by code_simp
  have "split_ws (concat (replicate 300 (''a'' @ [CHR '' ''])) @ markup_tail)
      = replicate 300 ''a'' @ split_ws_from True markup_tail"
  proof (rule split_ws_words)
    show "''a'' \<noteq> []" by simp
    show "list_all (\<lambda>c. \<not> is_whitespace c) ''a''" by (rule word)
    show "is_whitespace CHR '' ''" by (rule is_whitespace_space)
    show "(0::nat) < 300" by simp
  qed
  then show ?thesis
    by (simp only: full_content_def append.simps)
qed

lemma full_content_word_count: "length (split_ws full_content) = 305"
proof -
  have "length (split_ws_from True markup_tail) = 5"
    unfolding markup_tail_def by code_simp
  then show ?thesis
    by (simp add: full_content_words)
qed

lemma filler_no_tag: "list_all (\<lambda>c. \<not> c = CHR ''<'') (concat (replicate 300 ''a ''))"
  by (rule list_all_concat_replicate) simp

lemma full_content_headings: "match_tags heading_pattern full_content = [''<h2>'']"
proof -
  have "match_tags heading_pattern markup_tail = [''<h2>'']"
    unfolding markup_tail_def by code_simp
  then show ?thesis
    using match_tags_skip [OF filler_no_tag, of "tl heading_pattern" markup_tail]
    by (simp add: full_content_def heading_pattern_def)
qed

lemma full_content_images: "match_tags image_pattern full_content = [''<img alt=x>'']"
proof -
  have "match_tags image_pattern markup_tail = [''<img alt=x>'']"
    unfolding markup_tail_def by code_simp
  then show ?thesis
    using match_tags_skip [OF filler_no_tag, of "tl image_pattern" markup_tail]
    by (simp add: full_content_def image_pattern_def)
qed

lemma full_content_links: "match_tags link_pattern full_content = [''<a href=x>'']"
proof -
  have "match_tags link_pattern markup_tail = [''<a href=x>'']"
    unfolding markup_tail_def by code_simp
  then show ?thesis
    using match_tags_skip [OF filler_no_tag, of "tl link_pattern" markup_tail]
    by (simp add: full_content_def link_pattern_def)
qed

lemma img_has_alt:
  "js_includes ''<img alt=x>'' ''alt=''"
  "\<not> js_includes ''<img alt=x>'' (''alt='' @ [CHR 0x22, CHR 0x22])"
  by code_simp+

lemma full_input_statuses:
  "check_statuses (seo_checks full_content good_title good_meta ''well-formed-post'') =
     [(''title'', ''success''), (''metaDescription'', ''success''), (''slug'', ''success''),
      (''wordCount'', ''success''), (''headings'', ''success''), (''images'', ''success''),
      (''links'', ''success'')]"
  using img_has_alt good_slug
  by (simp add: check_statuses_def seo_checks_def title_analysis_def meta_analysis_def
      slug_analysis_def content_analysis_def wordCount_check_def headings_check_def
      images_check_def links_check_def set_check_def add_score_def initial_analysis_def Let_def
      good_title_length good_meta_length full_content_nonempty full_content_word_count
      full_content_headings full_content_images full_content_links)

lemma full_input_score:
  "score (seo_checks full_content good_title good_meta ''well-formed-post'') = 95"
  using img_has_alt good_slug
  by (simp add: seo_checks_def title_analysis_def meta_analysis_def
      slug_analysis_def content_analysis_def wordCount_check_def headings_check_def
      images_check_def links_check_def set_check_def add_score_def initial_analysis_def Let_def
      good_title_length good_meta_length full_content_nonempty full_content_word_count
      full_content_headings full_content_images full_content_links)

theorem analyzeSEO_full_marks_counterexample:
  "map_option check_statuses (analyzeSEO no_patterns full_content good_title good_meta ''well-formed-post'') =
     Some [(''title'', ''success''), (''metaDescription'', ''success''), (''slug'', ''success''),
           (''wordCount'', ''success''), (''headings'', ''success''), (''images'', ''success''),
           (''links'', ''success'')] \<and>
   map_option score (analyzeSEO no_patterns full_content good_title good_meta ''well-formed-post'') = Some 95"
proof -
  from analyzeSEO_total [OF good_title_literal] obtain a
    where a: "analyzeSEO no_patterns full_content good_title good_meta ''well-formed-post'' = Some a"
    by blast
  from analyzeSEO_Some(1,2) [OF a] have "score a = 95"
    and "check_statuses a = check_statuses (seo_checks full_content good_title good_meta ''well-formed-post'')"
    by (simp_all add: full_input_score check_statuses_def)
  with a show ?thesis
    by (simp add: full_input_statuses)
qed

lemma appends_check_steps:
  "appends_check s (title_checks t s)"
  "appends_check s (meta_checks m s)"
  "appends_check s (content_checks n s)"
  "appends_check s (slug_checks sl s)"
  "appends_check s (featured_image_check fi s)"
  "appends_check s (tags_check tags s)"
  "appends_check s (headings_checks hs s)"
  by (simp_all add: appends_check_def title_checks_def meta_checks_def content_checks_def
      slug_checks_def featured_image_check_def tags_check_def headings_checks_def
      push_check_def add_total_def)

lemma appends_check_balanced:
  assumes "appends_check s s'" and "balanced s"
  shows "balanced s'" and "length (sc_checks s') = Suc (length (sc_checks s))"
  using assms by (auto simp: appends_check_def balanced_def)

lemma run_checks_balanced:
  shows "balanced (run_checks t c m sl fi tags)"
    and "length (sc_checks (run_checks t c m sl fi tags)) = 7"
proof -
  let ?s0 = "\<lparr>sc_checks = [], sc_totalScore = 0\<rparr>"
  let ?s1 = "title_checks t ?s0"
  let ?s2 = "meta_checks m ?s1"
  let ?s3 = "content_checks (length (plain_words c)) ?s2"
  let ?s4 = "slug_checks sl ?s3"
  let ?s5 = "featured_image_check fi ?s4"
  let ?s6 = "tags_check tags ?s5"
  let ?s7 = "headings_checks (match_tags heading_pattern c) ?s6"
  have b0: "balanced ?s0" by (simp add: balanced_def)
  note s1 = appends_check_balanced [OF appends_check_steps(1) b0, of t]
  note s2 = appends_check_balanced [OF appends_check_steps(2) s1(1), of m]
  note s3 = appends_check_balanced [OF appends_check_steps(3) s2(1), of "length (plain_words c)"]
  note s4 = appends_check_balanced [OF appends_check_steps(4) s3(1), of sl]
  note s5 = appends_check_balanced [OF appends_check_steps(5) s4(1), of fi]
  note s6 = appends_check_balanced [OF appends_check_steps(6) s5(1), of tags]
  note s7 = appends_check_balanced [OF appends_check_steps(7) s6(1), of "match_tags heading_pattern c"]
  from s7(1) show "balanced (run_checks t c m sl fi tags)"
    by (simp only: run_checks_def)
  from s1(2) s2(2) s3(2) s4(2) s5(2) s6(2) s7(2)
  show "length (sc_checks (run_checks t c m sl fi tags)) = 7"
    by (simp add: run_checks_def)
qed

lemma sum_list_bounded:
  "(\<forall>x\<in>set xs. f x \<le> (b::nat)) \<Longrightarrow> sum_list (map f xs) \<le> length xs * b"
  by (induction xs) auto

lemma sum_list_const:
  "(\<forall>x\<in>set xs. f x = (b::nat)) \<Longrightarrow> sum_list (map f xs) = length xs * b"
  by (induction xs) auto

lemma SEOAnalyzer_score:
  fixes t c m sl fi tags
  defines "r \<equiv> SEOAnalyzer_analyzeSEO t c m sl fi tags"
  shows "seoScore r = round_percent (sum_list (map seo_score (report_checks r))) (length (report_checks r) * 10)"
    and "length (report_checks r) = 7"
    and "seoScore r \<le> 100"
    and "(\<forall>c\<in>set (report_checks r). seo_score c = 10) \<Longrightarrow> seoScore r = 100"
proof -
  let ?s = "run_checks t c m sl fi tags"
  have checks: "report_checks r = sc_checks ?s"
    and score: "seoScore r = round_percent (sc_totalScore ?s) (length (sc_checks ?s) * 10)"
    by (simp_all add: r_def SEOAnalyzer_analyzeSEO_def Let_def)
  from run_checks_balanced(1) [of t c m sl fi tags] run_checks_balanced(2) [of t c m sl fi tags]
  have total: "sc_totalScore ?s = sum_list (map seo_score (sc_checks ?s))"
    and small: "\<forall>c\<in>set (sc_checks ?s). seo_score c \<le> 10"
    and seven: "length (sc_checks ?s) = 7"
    by (simp_all add: balanced_def)
  from score total checks
  show "seoScore r = round_percent (sum_list (map seo_score (report_checks r))) (length (report_checks r) * 10)"
    by simp
  from seven checks show "length (report_checks r) = 7"
    by simp
  from sum_list_bounded [OF small] seven total have "sc_totalScore ?s \<le> 70"
    by simp
  with score seven show "seoScore r \<le> 100"
    by (simp add: round_percent_def)
  assume "\<forall>c\<in>set (report_checks r). seo_score c = 10"
  with checks have "\<forall>c\<in>set (sc_checks ?s). seo_score c = 10"
    by simp
  from sum_list_const [OF this] seven total have "sc_totalScore ?s = 70"
    by simp
  with score seven show "seoScore r = 100"
    by (simp add: round_percent_def)
qed

text \<open>
  Claim C1, as the code has it. The client-side analysis always makes seven checks of at
  most ten points each, and its final score is the sum of their scores divided by the
  maximum (the number of checks times ten), scaled to 0-100 and rounded; it never exceeds
  100 and is 100 when every check has its full ten points. The server-side analysis
  returns the sum of the fixed weights of its successful checks, which is at most 95 and is
  not divided by any maximum.
\<close>
theorem final_score_by_implementation:
  "(let r = SEOAnalyzer_analyzeSEO title content metaDescription slug featuredImage tags in
      seoScore r = round_percent (sum_list (map seo_score (report_checks r)))
                     (length (report_checks r) * 10)
      \<and> length (report_checks r) = 7 \<and> seoScore r \<le> 100
      \<and> ((\<forall>c\<in>set (report_checks r). seo_score c = 10) \<longrightarrow> seoScore r = 100))
   \<and> (\<forall>a. analyzeSEO engine content title metaDescription slug = Some a \<longrightarrow>
         score a = sum_list (map awarded (checks a)) \<and> score a \<le> 95)"
proof -
  have server: "score a = sum_list (map awarded (checks a)) \<and> score a \<le> 95"
    if "analyzeSEO engine content title metaDescription slug = Some a" for a
  proof -
    from seo_checks_score [of content title metaDescription slug] analyzeSEO_Some(1,2) [OF that]
    have "score a = score (seo_checks content title metaDescription slug)"
      and "checks a = checks (seo_checks content title metaDescription slug)"
      and "score a \<le> 95"
      by simp_all
    with seo_checks_tallied [of content title metaDescription slug] show ?thesis
      by (simp add: tallied_def)
  qed
  from SEOAnalyzer_score [of title content metaDescription slug featuredImage tags] server
  show ?thesis
    unfolding Let_def by blast
qed

lemma full_content_plain_words: "length (plain_words full_content) = 302"
proof -
  have word: "list_all (\<lambda>c. \<not> is_whitespace c) ''a''"
    by code_simp
  have tail: "strip_tags markup_tail = ''t  l''"
    unfolding markup_tail_def by code_simp
  have tail_words: "split_ws_from True ''t  l'' = [''t'', ''l'']"
    by code_simp
  have "strip_tags (concat (replicate 300 ''a '') @ markup_tail)
      = concat (replicate 300 ''a '') @ strip_tags markup_tail"
    using filler_no_tag by (intro strip_tags_skip) simp
  then have stripped: "strip_tags full_content = concat (replicate 300 ''a '') @ ''t  l''"
    by (simp only: full_content_def tail)
  have "split_ws (concat (replicate 300 (''a'' @ [CHR '' ''])) @ ''t  l'')
      = replicate 300 ''a'' @ split_ws_from True ''t  l''"
  proof (rule split_ws_words)
    show "''a'' \<noteq> []" by simp
    show "list_all (\<lambda>c. \<not> is_whitespace c) ''a''" by (rule word)
    show "is_whitespace CHR '' ''" by (rule is_whitespace_space)
    show "(0::nat) < 300" by simp
  qed
  then have "split_ws (strip_tags full_content) = replicate 300 ''a'' @ [''t'', ''l'']"
    by (simp only: stripped tail_words append.simps)
  then show ?thesis
    by (simp add: plain_words_def)
qed

lemma full_report_scores: "map seo_score (report_checks full_report) = [10, 10, 10, 10, 10, 10, 10]"
  by (simp add: full_report_def SEOAnalyzer_analyzeSEO_def run_checks_def Let_def
      title_checks_def meta_checks_def content_checks_def slug_checks_def
      featured_image_check_def tags_check_def headings_checks_def push_check_def add_total_def
      good_title_length good_meta_length full_content_plain_words full_content_headings)

theorem final_score_by_implementation_witness:
  "map seo_score (report_checks full_report) = [10, 10, 10, 10, 10, 10, 10] \<and>
   seoScore full_report = 100 \<and>
   map_option score (analyzeSEO no_patterns full_content good_title good_meta ''well-formed-post'') =
     map_option (\<lambda>a. sum_list (map awarded (checks a)))
       (analyzeSEO no_patterns full_content good_title good_meta ''well-formed-post'')"
proof -
  note inst = final_score_by_implementation [of good_title full_content good_meta
      "''well-formed-post''" "''/img/cover.png''" "[''forms'', ''a11y'']"]
  have all_ten: "\<forall>c\<in>set (report_checks full_report). seo_score c = 10"
  proof
    fix c assume "c \<in> set (report_checks full_report)"
    then have "seo_score c \<in> set (map seo_score (report_checks full_report))"
      by simp
    then show "seo_score c = 10"
      by (simp only: full_report_scores) simp
  qed
  from inst have "(\<forall>c\<in>set (report_checks full_report). seo_score c = 10) \<longrightarrow> seoScore full_report = 100"
    unfolding Let_def full_report_def by blast
  with all_ten have hundred: "seoScore full_report = 100"
    by blast
  from inst have server: "\<forall>a. analyzeSEO no_patterns full_content good_title good_meta ''well-formed-post'' = Some a \<longrightarrow>
         score a = sum_list (map awarded (checks a)) \<and> score a \<le> 95"
    by (rule conjunct2)
  have "map_option score (analyzeSEO no_patterns full_content good_title good_meta ''well-formed-post'') =
     map_option (\<lambda>a. sum_list (map awarded (checks a)))
       (analyzeSEO no_patterns full_content good_title good_meta ''well-formed-post'')"
  proof (cases "analyzeSEO no_patterns full_content good_title good_meta ''well-formed-post''")
    case None
    then show ?thesis by simp
  next
    case (Some a)
    with server show ?thesis by simp
  qed
  with full_report_scores hundred show ?thesis
    by (intro conjI)
qed

lemma content_checks_status:
  "\<exists>ch. sc_checks (content_checks n s) = sc_checks s @ [ch] \<and>
        seo_status ch = (if n < 300 then ''warning'' else ''success'')"
  by (simp add: content_checks_def push_check_def add_total_def)

lemma appends_check_nth:
  "appends_check s s' \<Longrightarrow> i < length (sc_checks s) \<Longrightarrow> sc_checks s' ! i = sc_checks s ! i"
  by (auto simp: appends_check_def nth_append)

lemma SEOAnalyzer_word_count_check:
  fixes t c m sl fi tags
  defines "r \<equiv> SEOAnalyzer_analyzeSEO t c m sl fi tags"
  shows "report_wordCount r = length (filter (\<lambda>w. w \<noteq> []) (split_ws (strip_tags c)))"
    and "seo_status (report_checks r ! 2) = (if report_wordCount r < 300 then ''warning'' else ''success'')"
proof -
  show count: "report_wordCount r = length (filter (\<lambda>w. w \<noteq> []) (split_ws (strip_tags c)))"
    by (simp add: r_def SEOAnalyzer_analyzeSEO_def Let_def plain_words_def)
  let ?n = "length (plain_words c)"
  let ?s0 = "\<lparr>sc_checks = [], sc_totalScore = 0\<rparr>"
  let ?s1 = "title_checks t ?s0"
  let ?s2 = "meta_checks m ?s1"
  let ?s3 = "content_checks ?n ?s2"
  let ?s4 = "slug_checks sl ?s3"
  let ?s5 = "featured_image_check fi ?s4"
  let ?s6 = "tags_check tags ?s5"
  let ?s7 = "headings_checks (match_tags heading_pattern c) ?s6"
  have b0: "balanced ?s0" by (simp add: balanced_def)
  note s1 = appends_check_balanced [OF appends_check_steps(1) b0, of t]
  note s2 = appends_check_balanced [OF appends_check_steps(2) s1(1), of m]
  note s3 = appends_check_balanced [OF appends_check_steps(3) s2(1), of ?n]
  note s4 = appends_check_balanced [OF appends_check_steps(4) s3(1), of sl]
  note s5 = appends_check_balanced [OF appends_check_steps(5) s4(1), of fi]
  note s6 = appends_check_balanced [OF appends_check_steps(6) s5(1), of tags]
  from s1(2) s2(2) have len2: "length (sc_checks ?s2) = 2" by simp
  from content_checks_status [of ?n ?s2] obtain ch
    where ch: "sc_checks ?s3 = sc_checks ?s2 @ [ch]"
      and st: "seo_status ch = (if ?n < 300 then ''warning'' else ''success'')"
    by blast
  from ch len2 have third: "sc_checks ?s3 ! 2 = ch"
    by (simp add: nth_append)
  from len2 s3(2) have l3: "2 < length (sc_checks ?s3)" by simp
  with s4(2) have l4: "2 < length (sc_checks ?s4)" by simp
  with s5(2) have l5: "2 < length (sc_checks ?s5)" by simp
  with s6(2) have l6: "2 < length (sc_checks ?s6)" by simp
  have "sc_checks ?s7 ! 2 = sc_checks ?s6 ! 2"
    using appends_check_steps(7) l6 by (rule appends_check_nth)
  also have "\<dots> = sc_checks ?s5 ! 2"
    using appends_check_steps(6) l5 by (rule appends_check_nth)
  also have "\<dots> = sc_checks ?s4 ! 2"
    using appends_check_steps(5) l4 by (rule appends_check_nth)
  also have "\<dots> = sc_checks ?s3 ! 2"
    using appends_check_steps(4) l3 by (rule appends_check_nth)
  finally have "sc_checks ?s7 ! 2 = ch"
    using third by simp
  moreover have "report_checks r = sc_checks ?s7"
    by (simp add: r_def SEOAnalyzer_analyzeSEO_def Let_def run_checks_def)
  moreover have "report_wordCount r = ?n"
    by (simp add: r_def SEOAnalyzer_analyzeSEO_def Let_def)
  ultimately show "seo_status (report_checks r ! 2) = (if report_wordCount r < 300 then ''warning'' else ''success'')"
    using st by simp
qed

subsection \<open>Keyword density of separated words\<close>



lemma of_char_char_of_small: "n < 256 \<Longrightarrow> of_char (char_of n) = (n::nat)"
  by simp




















lemma pow2_mono: "a \<le> b \<Longrightarrow> pow2 a \<le> pow2 b"
  by (simp add: pow2_def)
























end
